theory Spec2Isabelle
  imports Main
begin

section \<open>Data model of the gateway registry\<close>

text \<open>
  The registry document (\<^verbatim>\<open>routes/registry.json\<close>) maps a service name to a service
  object \<^verbatim>\<open>{instances, loadBalanceStrategy, index}\<close>. An instance is the copy of a
  registration body that \<^verbatim>\<open>/register\<close> pushes: \<^verbatim>\<open>{apiName, protocol, host, port, url}\<close>
  plus whatever else the body carried; \<^verbatim>\<open>enabled\<close>, a boolean, is written by
  \<^verbatim>\<open>/enableOrDisable\<close>. A field that may be absent (JavaScript \<^verbatim>\<open>undefined\<close>) is an
  option: \<open>None\<close> is \<^verbatim>\<open>undefined\<close>. A numeric port is held as the decimal string
  that JavaScript's string concatenation produces from it. The cursor \<^verbatim>\<open>index\<close> is
  a JavaScript number used as an array index, modelled as an unbounded integer.
\<close>

record api_instance =
  apiName :: string
  protocol :: string
  host :: string
  port :: string
  url :: "string option"
  enabled :: "bool option"

record service =
  instances :: "api_instance list"
  loadBalanceStrategy :: "string option"
  index :: int

type_synonym registry = "string \<rightharpoonup> service"

text \<open>What a JavaScript \<^verbatim>\<open>throw\<close> carries: \<^verbatim>\<open>new Error(msg)\<close>, the \<^verbatim>\<open>TypeError\<close> of
  reading a property of \<^verbatim>\<open>undefined\<close> (or of calling something that is no function), or
  the \<^verbatim>\<open>ReferenceError\<close> of naming a variable that is not in scope.\<close>

datatype exn = Error string | TypeError | ReferenceError

text \<open>Truthiness of \<^verbatim>\<open>instance.enabled\<close>: \<^verbatim>\<open>undefined\<close> and \<^verbatim>\<open>false\<close> are falsy.\<close>

definition truthy :: "bool option \<Rightarrow> bool" where
  "truthy b = (b = Some True)"

text \<open>The invariant that the specification's data model states for a service: when it
  has instances, its cursor is an index into them.\<close>

definition cursor_valid :: "service \<Rightarrow> bool" where
  "cursor_valid service =
     (instances service \<noteq> [] \<longrightarrow>
        0 \<le> index service \<and> index service < int (length (instances service)))"

section \<open>The load balancer (utils/loadbalancer.js)\<close>

text \<open>
  \<^verbatim>\<open>loadbalancer.isEnabled = (service, index, loadBalanceStrategy) =>
      service.instances[index].enabled ? index : loadBalanceStrategy(service)\<close>

  An out-of-range read \<^verbatim>\<open>service.instances[index]\<close> is \<^verbatim>\<open>undefined\<close>, and reading
  \<^verbatim>\<open>.enabled\<close> of it throws a \<^verbatim>\<open>TypeError\<close>. The service object is mutated in
  place by the strategy, so every result carries the service as it is afterwards.
\<close>

definition isEnabled ::
  "service \<Rightarrow> int \<Rightarrow> (service \<Rightarrow> service \<times> (exn + int)) \<Rightarrow> service \<times> (exn + int)" where
  "isEnabled service i strategy =
     (if i < 0 \<or> int (length (instances service)) \<le> i then (service, Inl TypeError)
      else if truthy (enabled (instances service ! nat i)) then (service, Inr i)
      else strategy service)"

text \<open>The strategy passed to \<open>isEnabled\<close> is only called on the service itself, and only
  when the instance at the index exists and is not enabled.\<close>

lemma isEnabled_cong [fundef_cong]:
  assumes "service = service'" and "i = i'"
    and "0 \<le> i' \<Longrightarrow> i' < int (length (instances service')) \<Longrightarrow>
         \<not> truthy (enabled (instances service' ! nat i')) \<Longrightarrow> f service' = g service'"
  shows "isEnabled service i f = isEnabled service' i' g"
  using assms by (simp add: isEnabled_def)

text \<open>
  \<^verbatim>\<open>loadbalancer.ROUND_ROBIN = (service) => {
      const newIndex = ++service.index >= service.instances.length ? 0 : service.index;
      service.index = newIndex;
      if (!service.instances.some(instance => instance.enabled)) {
          throw new Error('No enabled instances available');
      }
      return loadbalancer.isEnabled(service, newIndex, loadbalancer.ROUND_ROBIN);
  };\<close>
\<close>

definition newIndex :: "service \<Rightarrow> int" where
  "newIndex service =
     (if index service + 1 \<ge> int (length (instances service)) then 0 else index service + 1)"

text \<open>The number of disabled instances met from position \<open>j\<close> on, going round the list,
  before the first enabled one. It is the termination measure of the recursion.\<close>

definition sweep :: "api_instance list \<Rightarrow> nat \<Rightarrow> nat" where
  "sweep xs j = length (takeWhile (\<lambda>inst. \<not> truthy (enabled inst)) (rotate j xs))"

lemma sweep_step:
  assumes j: "j < length xs" and dis: "\<not> truthy (enabled (xs ! j))"
    and ex: "list_ex (\<lambda>inst. truthy (enabled inst)) xs"
  shows "sweep xs j = Suc (sweep xs (Suc j))"
proof -
  let ?P = "\<lambda>inst. \<not> truthy (enabled inst)"
  have ne: "rotate j xs \<noteq> []" using j by auto
  then obtain y ys where r: "rotate j xs = y # ys" by (cases "rotate j xs") auto
  have "y = rotate j xs ! 0" using r by simp
  also have "\<dots> = xs ! ((j + 0) mod length xs)"
    by (rule nth_rotate) (use j in auto)
  also have "\<dots> = xs ! j" using j by simp
  finally have y: "?P y" using dis by simp
  have sx: "set xs = insert y (set ys)" using r by (metis set_rotate list.simps(15))
  from ex obtain z where z: "z \<in> set xs" "truthy (enabled z)" by (auto simp: list_ex_iff)
  with y have "z \<noteq> y" by auto
  with z sx have "z \<in> set ys" and "\<not> ?P z" by auto
  then have "takeWhile ?P (ys @ [y]) = takeWhile ?P ys" by (rule takeWhile_append1)
  then have "sweep xs (Suc j) = length (takeWhile ?P ys)"
    by (simp add: sweep_def r)
  moreover have "sweep xs j = Suc (length (takeWhile ?P ys))"
    using y by (simp add: sweep_def r)
  ultimately show ?thesis by simp
qed

lemma sweep_wrap:
  assumes j: "j < length xs"
  shows "sweep xs (if length xs \<le> Suc j then 0 else Suc j) = sweep xs (Suc j)"
proof -
  have "rotate (Suc j) xs = xs" if "length xs \<le> Suc j"
  proof -
    from that j have "Suc j = length xs" by simp
    then have "Suc j mod length xs = 0" by simp
    then show ?thesis by (rule rotate_id)
  qed
  then show ?thesis by (auto simp: sweep_def simp del: rotate_Suc)
qed

lemma nat_newIndex_upd:
  assumes "0 \<le> newIndex s" and "newIndex s < int (length (instances s))"
  shows "nat (newIndex (s\<lparr>index := newIndex s\<rparr>)) =
         (if length (instances s) \<le> Suc (nat (newIndex s)) then 0 else Suc (nat (newIndex s)))"
  using assms by (auto simp: newIndex_def split: if_splits)

function ROUND_ROBIN :: "service \<Rightarrow> service \<times> (exn + int)" where
  "ROUND_ROBIN service =
     (let service' = service\<lparr>index := newIndex service\<rparr> in
      if \<not> list_ex (\<lambda>inst. truthy (enabled inst)) (instances service')
      then (service', Inl (Error ''No enabled instances available''))
      else isEnabled service' (newIndex service) (\<lambda>s. ROUND_ROBIN s))"
  by pat_completeness auto

termination ROUND_ROBIN
proof (relation "measure (\<lambda>s. sweep (instances s) (nat (newIndex s)))")
  show "wf (measure (\<lambda>s. sweep (instances s) (nat (newIndex s))))" by simp
next
  fix service service'
  assume s': "service' = service\<lparr>index := newIndex service\<rparr>"
    and ex: "\<not> \<not> list_ex (\<lambda>inst. truthy (enabled inst)) (instances service')"
    and lo: "0 \<le> newIndex service"
    and hi: "newIndex service < int (length (instances service'))"
    and dis: "\<not> truthy (enabled (instances service' ! nat (newIndex service)))"
  let ?xs = "instances service" and ?j = "nat (newIndex service)"
  have j: "?j < length ?xs" using lo hi s' by simp
  have "sweep ?xs (nat (newIndex service')) = sweep ?xs (Suc ?j)"
    using lo hi s' j by (simp only: s' nat_newIndex_upd sweep_wrap)
  also have "\<dots> < sweep ?xs ?j"
    using sweep_step [of ?j ?xs] j dis ex s' by simp
  finally show "(service', service) \<in> measure (\<lambda>s. sweep (instances s) (nat (newIndex s)))"
    using s' by simp
qed

declare ROUND_ROBIN.simps [simp del]

text \<open>The results of \<open>n\<close> consecutive calls of \<open>ROUND_ROBIN\<close> on one service, each call
  working on the service as the call before left it.\<close>

fun selections :: "nat \<Rightarrow> service \<Rightarrow> (exn + int) list" where
  "selections 0 service = []"
| "selections (Suc n) service =
     (let (service', selected) = ROUND_ROBIN service in selected # selections n service')"

section \<open>The gateway routes (routes/index.js)\<close>

subsection \<open>Payloads, responses and JavaScript helpers\<close>

text \<open>JSON payloads. Numbers are restricted to integers; an object is its list of
  members, looked up by key.\<close>

datatype json = JNull | JBool bool | JNum int | JStr string
  | JArr "json list" | JObj "(string \<times> json) list"

text \<open>What a route handler does with a request: it sends a response
  (\<^verbatim>\<open>res.status(n).json(payload)\<close>; \<^verbatim>\<open>res.json\<close> alone sends status 200), or an
  exception leaves the handler before any response was sent.\<close>

datatype outcome = Responded nat json | Uncaught exn

text \<open>The status code of a response; an exception that left the handler has none.\<close>

definition status :: "outcome \<Rightarrow> nat option" where
  "status out = (case out of Responded code payload \<Rightarrow> Some code | Uncaught e \<Rightarrow> None)"

text \<open>\<^verbatim>\<open>`${v}`\<close> for a string that may be \<^verbatim>\<open>undefined\<close>, and a value between the
  single quotes the messages put around names.\<close>

definition tmpl :: "string option \<Rightarrow> string" where
  "tmpl v = (case v of None \<Rightarrow> ''undefined'' | Some s \<Rightarrow> s)"

definition quoted :: "string \<Rightarrow> string" where
  "quoted s = CHR 0x27 # s @ [CHR 0x27]"

definition message :: "string \<Rightarrow> json" where
  "message text = JObj [(''message'', JStr text)]"

text \<open>The callback of \<^verbatim>\<open>fs.writeFile\<close> gets \<^verbatim>\<open>error\<close>: \<open>None\<close> when the registry image was
  written, \<open>Some e\<close> (the error's text) when the write failed. The handlers that persist
  take it as an argument and answer from it: \<^verbatim>\<open>500 {message: `${failure}\n${error}`}\<close> on
  an error, the success response otherwise.\<close>

definition persisted :: "string option \<Rightarrow> string \<Rightarrow> nat \<Rightarrow> string \<Rightarrow> outcome" where
  "persisted writeError failure code success =
     (case writeError of
        Some error \<Rightarrow> Responded 500 (message (failure @ [CHR 0x0A] @ error))
      | None \<Rightarrow> Responded code (message success))"

text \<open>\<^verbatim>\<open>Array.prototype.findIndex\<close>: the first position whose element satisfies the
  predicate, \<open>-1\<close> when there is none.\<close>

fun findIndex :: "('a \<Rightarrow> bool) \<Rightarrow> 'a list \<Rightarrow> int" where
  "findIndex P [] = - 1"
| "findIndex P (x # xs) =
     (if P x then 0 else (let i = findIndex P xs in if i = - 1 then - 1 else i + 1))"

text \<open>\<^verbatim>\<open>array.splice(start, 1)\<close>: a negative start counts from the end, and the start is
  clamped to the array.\<close>

definition splice1 :: "'a list \<Rightarrow> int \<Rightarrow> 'a list" where
  "splice1 xs start =
     (let len = int (length xs);
          from = (if start < 0 then max (len + start) 0 else min start len)
      in take (nat from) xs @ drop (nat from + 1) xs)"

subsection \<open>Register and unregister\<close>

text \<open>
  \<^verbatim>\<open>const apiAlreadyExists = (registrationInfo) => {
      let exists = false;
      registry.services[registrationInfo.apiName].instances.forEach(instance => {
          if (instance.url === registrationInfo.url) { exists = true; return }
      });
      return exists;
  }\<close>

  Reading \<^verbatim>\<open>.instances\<close> of a service name the registry does not have throws.
\<close>

definition apiAlreadyExists :: "registry \<Rightarrow> api_instance \<Rightarrow> exn + bool" where
  "apiAlreadyExists registry registrationInfo =
     (case registry (apiName registrationInfo) of
        None \<Rightarrow> Inl TypeError
      | Some service \<Rightarrow>
          Inr (fold (\<lambda>inst exists. if url inst = url registrationInfo then True else exists)
                 (instances service) False))"

text \<open>
  \<^verbatim>\<open>router.post('/register', ...)\<close>: the body is \<^verbatim>\<open>{apiName, protocol, host, port}\<close>; the
  handler sets its \<^verbatim>\<open>url\<close> to \<^verbatim>\<open>protocol + "://" + host + ":" + port + "/"\<close>, answers
  400 when that url is registered for the service, and otherwise pushes a copy of the body
  and persists the registry.
\<close>

definition derivedUrl :: "api_instance \<Rightarrow> string" where
  "derivedUrl body = protocol body @ ''://'' @ host body @ '':'' @ port body @ ''/''"

definition register :: "registry \<Rightarrow> api_instance \<Rightarrow> string option \<Rightarrow> registry \<times> outcome" where
  "register registry body writeError =
     (let registrationInfo = body\<lparr>url := Some (derivedUrl body)\<rparr> in
      case apiAlreadyExists registry registrationInfo of
        Inl e \<Rightarrow> (registry, Uncaught e)
      | Inr True \<Rightarrow>
          (registry, Responded 400 (message
             (''Configuration already exists for '' @ quoted (apiName registrationInfo) @
              '' at '' @ quoted (tmpl (url registrationInfo)))))
      | Inr False \<Rightarrow>
          (case registry (apiName registrationInfo) of
             None \<Rightarrow> (registry, Uncaught TypeError)
           | Some service \<Rightarrow>
               (registry(apiName registrationInfo \<mapsto>
                    service\<lparr>instances := instances service @ [registrationInfo]\<rparr>),
                persisted writeError
                  (''Could not register '' @ quoted (apiName registrationInfo))
                  200 (''Successfully registered '' @ quoted (apiName registrationInfo)))))"

text \<open>A sequence of \<^verbatim>\<open>/register\<close> calls, each with its body and the result of its write of
  the registry image, handled one after the other: the registry after the last call and
  the outcomes in order.\<close>

fun register_all :: "registry \<Rightarrow> (api_instance \<times> string option) list \<Rightarrow> registry \<times> outcome list" where
  "register_all registry [] = (registry, [])"
| "register_all registry ((info, writeError) # calls) =
     (let (registry', out) = register registry info writeError;
          (registry'', outs) = register_all registry' calls
      in (registry'', out # outs))"

text \<open>
  \<^verbatim>\<open>router.post('/unregister', ...)\<close>: the body is used as it arrives (the handler does
  not assign \<^verbatim>\<open>registrationInfo.url\<close>); when \<^verbatim>\<open>apiAlreadyExists\<close> finds its \<^verbatim>\<open>url\<close>, the
  first instance with that url is spliced out and the registry persisted (201), otherwise
  the answer is 404.
\<close>

definition unregister :: "registry \<Rightarrow> api_instance \<Rightarrow> string option \<Rightarrow> registry \<times> outcome" where
  "unregister registry registrationInfo writeError =
     (case apiAlreadyExists registry registrationInfo of
        Inl e \<Rightarrow> (registry, Uncaught e)
      | Inr True \<Rightarrow>
          (case registry (apiName registrationInfo) of
             None \<Rightarrow> (registry, Uncaught TypeError)
           | Some service \<Rightarrow>
               (let i = findIndex (\<lambda>inst. url registrationInfo = url inst) (instances service)
                in (registry(apiName registrationInfo \<mapsto>
                      service\<lparr>instances := splice1 (instances service) i\<rparr>),
                    persisted writeError
                      (''Could not unregister '' @ quoted (apiName registrationInfo))
                      201 (''Successfully unregistered '' @ quoted (apiName registrationInfo)))))
      | Inr False \<Rightarrow>
          (registry, Responded 404 (message
             (''Configuration does not exist for '' @ quoted (apiName registrationInfo) @
              '' at '' @ quoted (tmpl (url registrationInfo))))))"

subsection \<open>Enable or disable\<close>

text \<open>
  \<^verbatim>\<open>router.post('/enableOrDisable/:apiName', ...)\<close> with body \<^verbatim>\<open>{url, enabled}\<close>:
  \<^verbatim>\<open>registry.services[apiName].instances\<close> throws for an unknown service name; the
  instance is found by \<^verbatim>\<open>findIndex\<close> on the url; 404 when there is none, otherwise its
  \<^verbatim>\<open>enabled\<close> becomes the body's and the registry is persisted.
\<close>

definition enableOrDisable ::
  "registry \<Rightarrow> string \<Rightarrow> string option \<Rightarrow> bool option \<Rightarrow> string option \<Rightarrow> registry \<times> outcome" where
  "enableOrDisable registry name bodyUrl bodyEnabled writeError =
     (case registry name of
        None \<Rightarrow> (registry, Uncaught TypeError)
      | Some service \<Rightarrow>
          (let i = findIndex (\<lambda>s. url s = bodyUrl) (instances service) in
           if i = - 1
           then (registry, Responded 404 (JObj [(''status'', JStr ''error''),
                   (''message'', JStr (''Could not find '' @ quoted (tmpl bodyUrl) @
                                       '' for service '' @ quoted name))]))
           else (registry(name \<mapsto> service\<lparr>instances :=
                     (instances service)[nat i := (instances service ! nat i)\<lparr>enabled := bodyEnabled\<rparr>]\<rparr>),
                 persisted writeError
                   (''Could not enable/disable '' @ quoted (tmpl bodyUrl) @
                    '' for service '' @ quoted name)
                   200 (''Successfully enable/disable '' @ quoted (tmpl bodyUrl) @
                        '' for service '' @ quoted name))))"

subsection \<open>Forwarding\<close>

text \<open>The inbound request, as far as the handler reads it: \<^verbatim>\<open>req.method\<close>,
  \<^verbatim>\<open>req.params[0]\<close> (the path after the service name), \<^verbatim>\<open>req.headers\<close>, \<^verbatim>\<open>req.body\<close>
  and \<^verbatim>\<open>req.query\<close>.\<close>

record request =
  method' :: string
  path :: string
  headers :: "(string \<times> string) list"
  body :: json
  query :: "(string \<times> string) list"

text \<open>How the promise of \<^verbatim>\<open>axios({method, url, headers, data, params})\<close> settles: fulfilled
  with a response, or rejected with an error that carries the downstream response
  (\<^verbatim>\<open>error.response\<close>, a response with an error status), only the request
  (\<^verbatim>\<open>error.request\<close>, no response came) or neither; the last two carry
  \<^verbatim>\<open>error.message\<close>. The downstream world is a function from the call's arguments to
  such a result.\<close>

datatype axios_result =
    Fulfilled nat json
  | RejectedResponse nat json
  | RejectedRequest string
  | RejectedOther string

type_synonym axios =
  "string \<Rightarrow> string \<Rightarrow> (string \<times> string) list \<Rightarrow> json \<Rightarrow> (string \<times> string) list \<Rightarrow> axios_result"

text \<open>\<^verbatim>\<open>data.message\<close>: reading a property of \<^verbatim>\<open>null\<close> throws, an object yields the
  member or \<^verbatim>\<open>undefined\<close>, any other value has no such property. Then JavaScript
  truthiness, for \<^verbatim>\<open>||\<close>.\<close>

definition property :: "json \<Rightarrow> string \<Rightarrow> exn + json option" where
  "property v key =
     (case v of JNull \<Rightarrow> Inl TypeError | JObj members \<Rightarrow> Inr (map_of members key) | _ \<Rightarrow> Inr None)"

definition truthy_json :: "json option \<Rightarrow> bool" where
  "truthy_json v =
     (case v of
        None \<Rightarrow> False
      | Some JNull \<Rightarrow> False
      | Some (JBool b) \<Rightarrow> b
      | Some (JNum n) \<Rightarrow> n \<noteq> 0
      | Some (JStr s) \<Rightarrow> s \<noteq> []
      | Some _ \<Rightarrow> True)"

text \<open>
  The \<^verbatim>\<open>try { ... await axios(...) ... } catch (error) { ... }\<close> of the forwarding handler:
  a fulfilled call is answered with \<^verbatim>\<open>res.status(response.status).json(response.data)\<close>;
  a rejection with a response is answered with the response's status and
  \<^verbatim>\<open>{message: error.response.data.message || 'An error occurred', error: error.response.data}\<close>;
  one without a response with 502, any other with 500.
\<close>

definition relay :: "axios_result \<Rightarrow> outcome" where
  "relay result =
     (case result of
        Fulfilled code data \<Rightarrow> Responded code data
      | RejectedResponse code data \<Rightarrow>
          (case property data ''message'' of
             Inl e \<Rightarrow> Uncaught e
           | Inr m \<Rightarrow>
               Responded code (JObj
                 [(''message'', if truthy_json m then the m else JStr ''An error occurred''),
                  (''error'', data)]))
      | RejectedRequest msg \<Rightarrow>
          Responded 502 (JObj [(''message'', JStr ''No response received from the API''),
                               (''error'', JStr msg)])
      | RejectedOther msg \<Rightarrow> Responded 500 (message (''Request setup error: '' @ msg)))"

text \<open>\<^verbatim>\<open>loadbalancer[strategy](service)\<close>: the module has the strategy \<^verbatim>\<open>ROUND_ROBIN\<close>.
  Any other name ends in a \<^verbatim>\<open>TypeError\<close> with the service untouched: nothing callable is
  found under it; or \<^verbatim>\<open>isEnabled\<close>, called with the service alone, reads an instance at
  an \<^verbatim>\<open>undefined\<close> index; or a function that the module object inherits is called, and
  it throws or returns something that is no index of an instance, whose \<^verbatim>\<open>url\<close> is then
  read.\<close>

definition select :: "string option \<Rightarrow> service \<Rightarrow> service \<times> (exn + int)" where
  "select strategy service =
     (if strategy = Some ''ROUND_ROBIN'' then ROUND_ROBIN service
      else (service, Inl TypeError))"

text \<open>
  \<^verbatim>\<open>registry.services\<close> is a plain object, so \<^verbatim>\<open>registry.services[name]\<close> finds, for a
  name that is no service, what every object inherits from \<^verbatim>\<open>Object.prototype\<close>: a
  function under eleven names, and \<^verbatim>\<open>Object.prototype\<close> itself under \<^verbatim>\<open>__proto__\<close>.
  The other handlers read \<^verbatim>\<open>.instances\<close> of what they find and call a method of it,
  which throws for these as for \<^verbatim>\<open>undefined\<close>; the forwarding handler tests the value
  itself.
\<close>

definition objectPrototypeNames :: "string list" where
  "objectPrototypeNames =
     [''constructor'', ''__defineGetter__'', ''__defineSetter__'', ''hasOwnProperty'',
      ''__lookupGetter__'', ''__lookupSetter__'', ''isPrototypeOf'', ''propertyIsEnumerable'',
      ''toString'', ''valueOf'', ''__proto__'', ''toLocaleString'']"

text \<open>
  The forwarding handler assigns \<^verbatim>\<open>loadBalanceStrategy\<close> to what it found. For an
  inherited object the assignment stays on that object for the life of the process;
  \<open>polluted\<close> is the set of the inherited names whose object carries one. On
  \<^verbatim>\<open>Object.prototype\<close> it is seen by every object without a \<^verbatim>\<open>loadBalanceStrategy\<close> of
  its own: the strategy that \<^verbatim>\<open>service.loadBalanceStrategy\<close> reads.
\<close>

definition seenStrategy :: "string set \<Rightarrow> service \<Rightarrow> string option" where
  "seenStrategy polluted service =
     (case loadBalanceStrategy service of
        Some strategy \<Rightarrow> Some strategy
      | None \<Rightarrow> if ''__proto__'' \<in> polluted then Some ''ROUND_ROBIN'' else None)"

text \<open>
  The write that the handler starts when it has set the default strategy:
  \<^verbatim>\<open>fs.writeFile('./routes/registry.json', JSON.stringify(registry), (error) => {
      if (error) { logger.error(`... '${registrationInfo.apiName}' ...`); ... } })\<close>.
  The callback does nothing when the write succeeded. On an error it builds a message
  from \<^verbatim>\<open>registrationInfo\<close>, a name this handler does not have: a \<^verbatim>\<open>ReferenceError\<close>
  is thrown in the callback, outside every handler, which ends the process. Whether the
  request was answered before is a race between the write and the downstream call; the
  outcome of the handler below is what it does when the process lives.
\<close>

datatype persist = NotStarted | Written | CallbackThrew exn

definition persistDefault :: "bool \<Rightarrow> string option \<Rightarrow> persist" where
  "persistDefault defaulted writeError =
     (if \<not> defaulted then NotStarted
      else case writeError of None \<Rightarrow> Written | Some error \<Rightarrow> CallbackThrew ReferenceError)"

text \<open>
  \<^verbatim>\<open>router.all('/:apiName/*', async (req, res) => ...)\<close>, with the result of the write
  of the registry image, should one be started. The result is the registry, the
  inherited objects that carry a strategy, what became of the write, and the outcome.

  A name that is neither a service nor inherited is answered with 400. An inherited
  object is not \<^verbatim>\<open>undefined\<close>: it gets the default strategy if it sees none, and
  \<^verbatim>\<open>ROUND_ROBIN\<close> throws on reading \<^verbatim>\<open>service.instances.length\<close>. A service that sees no
  strategy (\<^verbatim>\<open>undefined\<close> or the empty string) gets \<^verbatim>\<open>'ROUND_ROBIN'\<close> and a write of the
  registry is started. The strategy is then called and the instance's url read, both
  outside the \<^verbatim>\<open>try\<close>: what they throw leaves the handler. The registry of the result
  has the service as the selection left it.
\<close>

definition forward ::
  "registry \<Rightarrow> string set \<Rightarrow> string \<Rightarrow> request \<Rightarrow> axios \<Rightarrow> string option \<Rightarrow>
     registry \<times> string set \<times> persist \<times> outcome" where
  "forward registry polluted name req axios writeError =
     (case registry name of
        None \<Rightarrow>
          if name \<in> set objectPrototypeNames
          then (let defaulted = (name \<notin> polluted \<and> ''__proto__'' \<notin> polluted)
                in (registry, if defaulted then insert name polluted else polluted,
                    persistDefault defaulted writeError, Uncaught TypeError))
          else (registry, polluted, NotStarted,
                Responded 400 (message ''Service name does not exist''))
      | Some service \<Rightarrow>
          (let seen = seenStrategy polluted service;
               defaulted = (seen = None \<or> seen = Some []);
               service1 = (if defaulted then service\<lparr>loadBalanceStrategy := Some ''ROUND_ROBIN''\<rparr>
                           else service);
               (service2, selected) = select (seenStrategy polluted service1) service1;
               registry' = registry(name \<mapsto> service2);
               effect = persistDefault defaulted writeError
           in case selected of
                Inl e \<Rightarrow> (registry', polluted, effect, Uncaught e)
              | Inr i \<Rightarrow>
                  if i < 0 \<or> int (length (instances service2)) \<le> i
                  then (registry', polluted, effect, Uncaught TypeError)
                  else (registry', polluted, effect,
                        relay (axios (method' req)
                                 (tmpl (url (instances service2 ! nat i)) @ path req)
                                 (headers req) (body req) (query req)))))"

text \<open>
  \<^verbatim>\<open>errorHandler\<close> of gateway.js, the application's last middleware: the response to an
  exception that Express hands to it.
\<close>

definition errorHandler :: "exn \<Rightarrow> outcome" where
  "errorHandler err =
     Responded 500 (JObj [(''error'', JStr ''Internal Server Error. Please try again later.'')])"

section \<open>Example data\<close>

text \<open>Three instances of a service \<^verbatim>\<open>foo\<close>, as \<^verbatim>\<open>/register\<close> followed by an enabling
  \<^verbatim>\<open>/enableOrDisable\<close> leaves them, and services built from them.\<close>

definition instA :: api_instance where
  "instA = \<lparr>apiName = ''foo'', protocol = ''http'', host = ''h1'', port = ''1'',
            url = Some ''http://h1:1/'', enabled = Some True\<rparr>"

definition instB :: api_instance where
  "instB = \<lparr>apiName = ''foo'', protocol = ''http'', host = ''h2'', port = ''2'',
            url = Some ''http://h2:2/'', enabled = Some True\<rparr>"

definition instC :: api_instance where
  "instC = \<lparr>apiName = ''foo'', protocol = ''http'', host = ''h3'', port = ''3'',
            url = Some ''http://h3:3/'', enabled = Some True\<rparr>"

definition svc :: "api_instance list \<Rightarrow> int \<Rightarrow> service" where
  "svc xs c = \<lparr>instances = xs, loadBalanceStrategy = Some ''ROUND_ROBIN'', index = c\<rparr>"

definition svc1 :: service where
  "svc1 = svc [instA\<lparr>enabled := Some False\<rparr>, instB, instC\<lparr>enabled := None\<rparr>] 1"

definition regABC :: registry where
  "regABC = [''foo'' \<mapsto> svc [instA, instB, instC] 2]"

definition svc2 :: service where
  "svc2 = svc [instA\<lparr>enabled := Some False\<rparr>, instB] 2"

definition svc3 :: service where
  "svc3 = svc [instA, instB, instC] 7"

text \<open>A registry with the service \<^verbatim>\<open>foo\<close> and no instance, one with the instance
  \<open>instA\<close>, and registration bodies as the backends send them.\<close>

definition regFoo :: registry where
  "regFoo = [''foo'' \<mapsto> svc [] 0]"

definition bodyH1 :: api_instance where
  "bodyH1 = \<lparr>apiName = ''foo'', protocol = ''http'', host = ''h1'', port = ''1'',
             url = None, enabled = None\<rparr>"

definition bodyH2 :: api_instance where
  "bodyH2 = \<lparr>apiName = ''foo'', protocol = ''http'', host = ''h2'', port = ''2'',
             url = None, enabled = None\<rparr>"

definition regA :: registry where
  "regA = [''foo'' \<mapsto> svc [instA] 0]"

definition callsH :: "(api_instance \<times> string option) list" where
  "callsH = [(bodyH2, None), (bodyH1\<lparr>host := ''h9''\<rparr>, Some ''EACCES'')]"

text \<open>The registry \<open>regFoo\<close> after the backend \<open>bodyH1\<close> has registered.\<close>

definition regH1 :: registry where
  "regH1 = [''foo'' \<mapsto> svc [bodyH1\<lparr>url := Some ''http://h1:1/''\<rparr>] 0]"

text \<open>A registry whose service \<^verbatim>\<open>foo\<close> has two enabled instances and the cursor on the
  second; an inbound \<^verbatim>\<open>GET /foo/items?x=1\<close>; a downstream that answers every call with
  200.\<close>

definition regAB :: registry where
  "regAB = [''foo'' \<mapsto> svc [instA, instB] 1]"

definition reqItems :: request where
  "reqItems = \<lparr>method' = ''GET'', path = ''items'', headers = [(''accept'', ''application/json'')],
               body = JNull, query = [(''x'', ''1'')]\<rparr>"

definition axiosOk :: axios where
  "axiosOk m u h d q = Fulfilled 200 (JObj [(''items'', JArr [])])"


definition regOff :: registry where
  "regOff = [''foo'' \<mapsto> svc [instA\<lparr>enabled := Some False\<rparr>, instB\<lparr>enabled := None\<rparr>] 0]"

section \<open>Properties of the load balancer\<close>

subsection \<open>What the recursion computes\<close>

text \<open>The position of the first enabled instance met from position \<open>j\<close> on, going round
  the list.\<close>

definition nextEnabled :: "api_instance list \<Rightarrow> nat \<Rightarrow> nat" where
  "nextEnabled xs j = (j + sweep xs j) mod length xs"

lemma sweep_zero:
  assumes "j < length xs" and "truthy (enabled (xs ! j))"
  shows "sweep xs j = 0"
proof -
  have "rotate j xs \<noteq> []" using assms by auto
  then obtain y ys where r: "rotate j xs = y # ys" by (cases "rotate j xs") auto
  have "y = rotate j xs ! 0" using r by simp
  also have "\<dots> = xs ! ((j + 0) mod length xs)"
    by (rule nth_rotate) (use assms in auto)
  also have "\<dots> = xs ! j" using assms by simp
  finally show ?thesis using assms by (simp add: sweep_def r)
qed

lemma sweep_less:
  assumes "list_ex (\<lambda>inst. truthy (enabled inst)) xs"
  shows "sweep xs j < length xs"
proof -
  let ?P = "\<lambda>inst. \<not> truthy (enabled inst)"
  from assms obtain z where "z \<in> set (rotate j xs)" "\<not> ?P z" by (auto simp: list_ex_iff)
  then have "takeWhile ?P (rotate j xs) \<noteq> rotate j xs"
    by (auto simp: takeWhile_eq_all_conv)
  then have "length (takeWhile ?P (rotate j xs)) \<noteq> length (rotate j xs)"
    by (metis takeWhile_eq_take take_all order_refl)
  with length_takeWhile_le [of ?P "rotate j xs"]
  have "length (takeWhile ?P (rotate j xs)) < length (rotate j xs)" by simp
  then show ?thesis by (simp add: sweep_def)
qed

lemma nextEnabled_enabled:
  assumes ex: "list_ex (\<lambda>inst. truthy (enabled inst)) xs"
  shows "truthy (enabled (xs ! nextEnabled xs j))"
proof -
  let ?P = "\<lambda>inst. \<not> truthy (enabled inst)"
  have l: "sweep xs j < length (rotate j xs)" using sweep_less [OF ex] by simp
  then have "\<not> ?P (rotate j xs ! sweep xs j)"
    unfolding sweep_def by (rule nth_length_takeWhile)
  moreover have "rotate j xs ! sweep xs j = xs ! ((j + sweep xs j) mod length xs)"
    by (rule nth_rotate) (use l in simp)
  ultimately show ?thesis by (simp add: nextEnabled_def)
qed

lemma sweep_skipped:
  assumes "d < sweep xs j"
  shows "\<not> truthy (enabled (xs ! ((j + d) mod length xs)))"
proof -
  let ?P = "\<lambda>inst. \<not> truthy (enabled inst)"
  have d: "d < length (takeWhile ?P (rotate j xs))" using assms by (simp add: sweep_def)
  then have "takeWhile ?P (rotate j xs) ! d \<in> set (takeWhile ?P (rotate j xs))" by (rule nth_mem)
  then have "?P (takeWhile ?P (rotate j xs) ! d)" by (rule set_takeWhileD [THEN conjunct2])
  then have "?P (rotate j xs ! d)" using d by (simp add: takeWhile_nth)
  moreover have "d < length xs" using d length_takeWhile_le [of ?P "rotate j xs"] by simp
  then have "rotate j xs ! d = xs ! ((j + d) mod length xs)" by (rule nth_rotate)
  ultimately show ?thesis by simp
qed

lemma nextEnabled_step:
  assumes j: "j < length xs" and dis: "\<not> truthy (enabled (xs ! j))"
    and ex: "list_ex (\<lambda>inst. truthy (enabled inst)) xs"
  shows "nextEnabled xs (if length xs \<le> Suc j then 0 else Suc j) = nextEnabled xs j"
proof -
  let ?w = "if length xs \<le> Suc j then 0 else Suc j"
  have w: "?w = Suc j mod length xs"
  proof (cases "length xs \<le> Suc j")
    case True
    with j have "Suc j = length xs" by simp
    then have "Suc j mod length xs = 0" by simp
    with True show ?thesis by simp
  next
    case False
    then show ?thesis by simp
  qed
  have sw: "sweep xs ?w = sweep xs (Suc j)" by (rule sweep_wrap [OF j])
  have "nextEnabled xs ?w = (?w + sweep xs (Suc j)) mod length xs"
    by (simp only: nextEnabled_def sw)
  also have "\<dots> = (Suc j mod length xs + sweep xs (Suc j)) mod length xs"
    by (simp only: w)
  also have "\<dots> = (Suc j + sweep xs (Suc j)) mod length xs" by (simp add: mod_add_left_eq)
  also have "\<dots> = nextEnabled xs j"
    by (simp add: nextEnabled_def sweep_step [OF j dis ex])
  finally show ?thesis .
qed

lemma ROUND_ROBIN_result:
  assumes "list_ex (\<lambda>inst. truthy (enabled inst)) (instances s)" and "- 1 \<le> index s"
  shows "ROUND_ROBIN s =
          (s\<lparr>index := int (nextEnabled (instances s) (nat (newIndex s)))\<rparr>,
           Inr (int (nextEnabled (instances s) (nat (newIndex s)))))"
  using assms
proof (induction s rule: ROUND_ROBIN.induct)
  case (1 service)
  let ?xs = "instances service" and ?j = "nat (newIndex service)"
  let ?s' = "service\<lparr>index := newIndex service\<rparr>"
  from "1.prems" have ne: "?xs \<noteq> []" by (auto simp: list_ex_iff)
  have lo: "0 \<le> newIndex service" using "1.prems" by (simp add: newIndex_def)
  have hi: "newIndex service < int (length ?xs)" using ne by (simp add: newIndex_def)
  have j: "?j < length ?xs" using lo hi by simp
  show ?case
  proof (cases "truthy (enabled (?xs ! ?j))")
    case True
    then have "nextEnabled ?xs ?j = ?j" using j by (simp add: nextEnabled_def sweep_zero)
    moreover have "ROUND_ROBIN service = (?s', Inr (newIndex service))"
      using "1.prems" True lo hi by (subst ROUND_ROBIN.simps) (simp add: isEnabled_def)
    ultimately show ?thesis using lo by simp
  next
    case False
    have "ROUND_ROBIN service = ROUND_ROBIN ?s'"
      using "1.prems" False lo hi by (subst ROUND_ROBIN.simps) (simp add: isEnabled_def)
    also have "\<dots> = (?s'\<lparr>index := int (nextEnabled (instances ?s') (nat (newIndex ?s')))\<rparr>,
           Inr (int (nextEnabled (instances ?s') (nat (newIndex ?s')))))"
      using "1.prems" False lo hi by (intro "1.IH") simp_all
    also have "nextEnabled (instances ?s') (nat (newIndex ?s')) = nextEnabled ?xs ?j"
      using nextEnabled_step [OF j False "1.prems"(1)] lo hi
      by (simp add: nat_newIndex_upd)
    finally show ?thesis by simp
  qed
qed

lemma cursor_pos:
  assumes "0 \<le> c"
  shows "nat ((c + int e) mod int n) = (nat c + e) mod n"
proof -
  have "c + int e = int (nat c + e)" using assms by simp
  then have "(c + int e) mod int n = int ((nat c + e) mod n)" by (simp only: zmod_int)
  then show ?thesis by simp
qed

lemma newIndex_mod:
  assumes "- 1 \<le> index s" and "index s < int (length (instances s))"
  shows "newIndex s = (index s + 1) mod int (length (instances s))"
proof (cases "index s + 1 = int (length (instances s))")
  case True
  then show ?thesis by (simp add: newIndex_def)
next
  case False
  with assms show ?thesis by (simp add: newIndex_def)
qed

text \<open>
  Claim C1, as stated, fails for a cursor beyond the end of the list, which
  \<^verbatim>\<open>/unregister\<close> leaves behind: with three instances and the cursor on the third,
  unregistering the first leaves two instances and the cursor 2. One position further
  modulo the length is position 1; \<open>ROUND_ROBIN\<close> restarts at position 0 and returns it.
\<close>

theorem stale_cursor_restarts_at_zero:
  "cursor_valid (svc [instA, instB, instC] 2) \<and>
   unregister regABC instA None =
     ([''foo'' \<mapsto> svc [instB, instC] 2],
      Responded 201 (message (''Successfully unregistered '' @ quoted ''foo''))) \<and>
   list_ex (\<lambda>inst. truthy (enabled inst)) (instances (svc [instB, instC] 2)) \<and>
   (index (svc [instB, instC] 2) + 1) mod int (length (instances (svc [instB, instC] 2))) = 1 \<and>
   ROUND_ROBIN (svc [instB, instC] 2) = (svc [instB, instC] 0, Inr 0)"
  by (simp add: cursor_valid_def regABC_def svc_def instA_def instB_def instC_def unregister_def
      apiAlreadyExists_def splice1_def persisted_def ROUND_ROBIN.simps isEnabled_def
      newIndex_def truthy_def Let_def)

text \<open>
  Claim C1, amended. On a service with at least one enabled instance and a cursor of at
  least \<open>-1\<close>, \<open>ROUND_ROBIN\<close> first moves the cursor to \<open>newIndex\<close>: the successor of the
  cursor, or 0 when the successor is not below the length. For a cursor that is a valid
  index (or \<open>-1\<close>, before the first selection) that is \<open>(cursor + 1) mod length\<close>; for a
  cursor beyond the end it is 0. It returns the index \<open>(newIndex + d) mod length\<close> for the
  least \<open>d\<close> at which the instance is enabled: the new cursor itself when that instance
  is enabled (\<open>d = 0\<close>), and otherwise the first enabled one met by advancing further
  modulo the length, every position skipped on the way being disabled. The cursor is left
  on the returned index, and the returned index is in range and points to an enabled
  instance. The cursors covered are all from \<open>-1\<close> upwards; the gateway stores no other
  (\<open>ROUND_ROBIN\<close> writes 0 or the successor, nothing else writes it).
\<close>

theorem round_robin_selects_next_enabled:
  assumes ex: "list_ex (\<lambda>inst. truthy (enabled inst)) (instances s)"
    and lo: "- 1 \<le> index s"
  shows "newIndex s = (if int (length (instances s)) \<le> index s + 1 then 0 else index s + 1) \<and>
         (index s < int (length (instances s)) \<longrightarrow>
            newIndex s = (index s + 1) mod int (length (instances s))) \<and>
         (\<exists>d<length (instances s).
           (let k = (newIndex s + int d) mod int (length (instances s)) in
              ROUND_ROBIN s = (s\<lparr>index := k\<rparr>, Inr k) \<and>
              0 \<le> k \<and> k < int (length (instances s)) \<and>
              truthy (enabled (instances s ! nat k))) \<and>
           (\<forall>e<d. \<not> truthy (enabled (instances s !
                      nat ((newIndex s + int e) mod int (length (instances s)))))))"
proof (intro conjI impI)
  show "newIndex s = (if int (length (instances s)) \<le> index s + 1 then 0 else index s + 1)"
    by (simp add: newIndex_def)
next
  assume "index s < int (length (instances s))"
  with lo show "newIndex s = (index s + 1) mod int (length (instances s))"
    by (rule newIndex_mod)
next
  let ?xs = "instances s" and ?j = "nat (newIndex s)"
  let ?d = "sweep ?xs ?j"
  from ex have ne: "?xs \<noteq> []" by (auto simp: list_ex_iff)
  have c: "0 \<le> newIndex s" using lo by (simp add: newIndex_def)
  have pos: "nat ((newIndex s + int e) mod int (length ?xs)) = (?j + e) mod length ?xs" for e
    using c by (rule cursor_pos)
  have k: "(newIndex s + int ?d) mod int (length ?xs) = int (nextEnabled ?xs ?j)"
    using pos [of ?d] ne by (simp add: nextEnabled_def nat_eq_iff)
  have d: "?d < length ?xs" using ex by (rule sweep_less)
  have rr: "ROUND_ROBIN s = (s\<lparr>index := int (nextEnabled ?xs ?j)\<rparr>, Inr (int (nextEnabled ?xs ?j)))"
    using ex lo by (rule ROUND_ROBIN_result)
  have en: "truthy (enabled (?xs ! nextEnabled ?xs ?j))" using ex by (rule nextEnabled_enabled)
  have bound: "nextEnabled ?xs ?j < length ?xs" using ne by (simp add: nextEnabled_def)
  have skipped: "\<not> truthy (enabled (?xs ! nat ((newIndex s + int e) mod int (length ?xs))))"
    if "e < ?d" for e
    unfolding pos by (rule sweep_skipped [OF that])
  show "\<exists>d<length ?xs.
           (let k = (newIndex s + int d) mod int (length ?xs) in
              ROUND_ROBIN s = (s\<lparr>index := k\<rparr>, Inr k) \<and>
              0 \<le> k \<and> k < int (length ?xs) \<and>
              truthy (enabled (?xs ! nat k))) \<and>
           (\<forall>e<d. \<not> truthy (enabled (?xs !
                      nat ((newIndex s + int e) mod int (length ?xs)))))"
    apply (rule exI [of _ ?d])
    using d rr en bound skipped by (simp add: k Let_def)
qed

theorem round_robin_selects_next_enabled_witness:
  "list_ex (\<lambda>inst. truthy (enabled inst)) (instances svc1) \<and> - 1 \<le> index svc1 \<and>
   index svc1 < int (length (instances svc1)) \<and>
   newIndex svc1 = (index svc1 + 1) mod int (length (instances svc1)) \<and>
   (\<exists>d<length (instances svc1).
           (let k = (newIndex svc1 + int d) mod int (length (instances svc1)) in
              ROUND_ROBIN svc1 = (svc1\<lparr>index := k\<rparr>, Inr k) \<and>
              0 \<le> k \<and> k < int (length (instances svc1)) \<and>
              truthy (enabled (instances svc1 ! nat k))) \<and>
           (\<forall>e<d. \<not> truthy (enabled (instances svc1 !
                      nat ((newIndex svc1 + int e) mod int (length (instances svc1))))))) \<and>
   ROUND_ROBIN svc1 = (svc1, Inr 1)"
proof -
  have ex: "list_ex (\<lambda>inst. truthy (enabled inst)) (instances svc1)"
    by (simp add: svc1_def svc_def instB_def truthy_def)
  have lo: "- 1 \<le> index svc1" and hi: "index svc1 < int (length (instances svc1))"
    by (simp_all add: svc1_def svc_def)
  note c = round_robin_selects_next_enabled [OF ex lo]
  from c hi have n: "newIndex svc1 = (index svc1 + 1) mod int (length (instances svc1))"
    by blast
  from c have d: "\<exists>d<length (instances svc1).
           (let k = (newIndex svc1 + int d) mod int (length (instances svc1)) in
              ROUND_ROBIN svc1 = (svc1\<lparr>index := k\<rparr>, Inr k) \<and>
              0 \<le> k \<and> k < int (length (instances svc1)) \<and>
              truthy (enabled (instances svc1 ! nat k))) \<and>
           (\<forall>e<d. \<not> truthy (enabled (instances svc1 !
                      nat ((newIndex svc1 + int e) mod int (length (instances svc1))))))"
    by blast
  have r: "ROUND_ROBIN svc1 = (svc1, Inr 1)"
    by (simp add: ROUND_ROBIN.simps isEnabled_def newIndex_def svc1_def svc_def
        instA_def instB_def instC_def truthy_def)
  from ex lo hi n d r show ?thesis by (intro conjI)
qed

text \<open>
  Claim C10. When the cursor is at or beyond the last position (\<open>cursor + 1 \<ge> length\<close>,
  as after an unregistration that shortened the list) and some instance is enabled,
  \<open>ROUND_ROBIN\<close> restarts at position 0: the new index is 0, no instance is read out of
  range, and the result is the first enabled instance of the list, an index in range.
\<close>

theorem stale_cursor_reset:
  assumes ex: "list_ex (\<lambda>inst. truthy (enabled inst)) (instances s)"
    and stale: "int (length (instances s)) \<le> index s + 1"
  shows "newIndex s = 0 \<and>
         (let k = int (length (takeWhile (\<lambda>inst. \<not> truthy (enabled inst)) (instances s))) in
            ROUND_ROBIN s = (s\<lparr>index := k\<rparr>, Inr k) \<and>
            0 \<le> k \<and> k < int (length (instances s)) \<and>
            truthy (enabled (instances s ! nat k)))"
proof -
  let ?xs = "instances s"
  have n: "newIndex s = 0" using stale by (simp add: newIndex_def)
  have lo: "- 1 \<le> index s" using stale by simp
  have d: "sweep ?xs 0 < length ?xs" using ex by (rule sweep_less)
  then have k: "nextEnabled ?xs 0 = sweep ?xs 0" by (simp add: nextEnabled_def)
  have s0: "sweep ?xs 0 = length (takeWhile (\<lambda>inst. \<not> truthy (enabled inst)) ?xs)"
    by (simp add: sweep_def)
  have rr: "ROUND_ROBIN s = (s\<lparr>index := int (nextEnabled ?xs 0)\<rparr>, Inr (int (nextEnabled ?xs 0)))"
    using ROUND_ROBIN_result [OF ex lo] by (simp add: n)
  have en: "truthy (enabled (?xs ! nextEnabled ?xs 0))" using ex by (rule nextEnabled_enabled)
  show ?thesis using n rr en d by (simp add: k s0 Let_def)
qed

theorem stale_cursor_reset_witness:
  "list_ex (\<lambda>inst. truthy (enabled inst)) (instances svc2) \<and>
   int (length (instances svc2)) \<le> index svc2 + 1 \<and>
   newIndex svc2 = 0 \<and> ROUND_ROBIN svc2 = (svc2\<lparr>index := 1\<rparr>, Inr 1) \<and>
   truthy (enabled (instances svc2 ! 1))"
proof -
  have ex: "list_ex (\<lambda>inst. truthy (enabled inst)) (instances svc2)"
    by (simp add: svc2_def svc_def instB_def truthy_def)
  have stale: "int (length (instances svc2)) \<le> index svc2 + 1"
    by (simp add: svc2_def svc_def)
  have "length (takeWhile (\<lambda>inst. \<not> truthy (enabled inst)) (instances svc2)) = 1"
    by (simp add: svc2_def svc_def instA_def instB_def truthy_def)
  with stale_cursor_reset [OF ex stale] ex stale show ?thesis by (simp add: Let_def)
qed

text \<open>Without an enabled instance the call throws at once, the cursor already moved.\<close>

lemma ROUND_ROBIN_none_enabled:
  assumes "\<not> list_ex (\<lambda>inst. truthy (enabled inst)) (instances s)"
  shows "ROUND_ROBIN s = (s\<lparr>index := newIndex s\<rparr>, Inl (Error ''No enabled instances available''))"
  using assms by (subst ROUND_ROBIN.simps) (simp add: Let_def)

lemma ROUND_ROBIN_all_enabled:
  assumes all: "\<forall>inst\<in>set (instances s). truthy (enabled inst)"
    and ne: "instances s \<noteq> []" and lo: "- 1 \<le> index s"
  shows "ROUND_ROBIN s = (s\<lparr>index := newIndex s\<rparr>, Inr (newIndex s))"
proof -
  have lo': "0 \<le> newIndex s" using lo by (simp add: newIndex_def)
  have hi: "newIndex s < int (length (instances s))" using ne by (simp add: newIndex_def)
  have ex: "list_ex (\<lambda>inst. truthy (enabled inst)) (instances s)"
    using all ne by (cases "instances s") (auto simp: list_ex_iff)
  have "truthy (enabled (instances s ! nat (newIndex s)))" using all lo' hi by simp
  then show ?thesis using ex lo' hi
    by (subst ROUND_ROBIN.simps) (simp add: isEnabled_def Let_def)
qed

lemma selections_all_enabled:
  assumes all: "\<forall>inst\<in>set (instances s). truthy (enabled inst)"
    and ne: "instances s \<noteq> []" and lo: "- 1 \<le> index s"
  shows "selections n s =
         map (\<lambda>i. Inr ((newIndex s + int i) mod int (length (instances s)))) [0..<n]"
  using assms
proof (induction n arbitrary: s)
  case 0
  then show ?case by simp
next
  case (Suc n)
  let ?N = "int (length (instances s))" and ?s' = "s\<lparr>index := newIndex s\<rparr>"
  have lo': "0 \<le> newIndex s" using Suc.prems by (simp add: newIndex_def)
  have hi: "newIndex s < ?N" using Suc.prems by (simp add: newIndex_def)
  have n': "newIndex ?s' = (newIndex s + 1) mod ?N"
  proof (cases "newIndex s + 1 = ?N")
    case True
    then have "(newIndex s + 1) mod ?N = 0" by simp
    with True show ?thesis by (simp add: newIndex_def [of ?s'])
  next
    case False
    with lo' hi show ?thesis by (simp add: newIndex_def [of ?s'])
  qed
  have "selections n ?s' = map (\<lambda>i. Inr ((newIndex ?s' + int i) mod ?N)) [0..<n]"
    using Suc.prems lo' by (subst Suc.IH) simp_all
  also have "\<dots> = map (\<lambda>i. Inr ((newIndex s + int (Suc i)) mod ?N)) [0..<n]"
    by (simp add: n' mod_add_left_eq add.assoc)
  finally have tl: "selections n ?s' = map ((\<lambda>i. Inr ((newIndex s + int i) mod ?N)) \<circ> Suc) [0..<n]"
    by (simp add: comp_def)
  have hd: "(newIndex s + int 0) mod ?N = newIndex s" using lo' hi by simp
  have "selections (Suc n) s = Inr (newIndex s) # selections n ?s'"
    using ROUND_ROBIN_all_enabled [OF Suc.prems] by simp
  also have "\<dots> = map (\<lambda>i. Inr ((newIndex s + int i) mod ?N)) (0 # map Suc [0..<n])"
    using hd tl by (simp del: of_nat_0 of_nat_Suc)
  also have "0 # map Suc [0..<n] = [0..<Suc n]"
    by (simp add: map_Suc_upt upt_conv_Cons del: upt_Suc)
  finally show ?case .
qed

lemma shifted_mod_inj:
  assumes "i < N" "j < N" "(c + int i) mod int N = (c + int j) mod int N"
  shows "i = j"
proof -
  from assms(3) have "int N dvd (c + int i) - (c + int j)" by (simp add: mod_eq_dvd_iff)
  then have "int N dvd int i - int j" by simp
  moreover have "\<bar>int i - int j\<bar> < int N" using assms(1,2) by linarith
  ultimately have "int i - int j = 0"
    using dvd_imp_le_int [of "int i - int j" "int N"] by auto
  then show ?thesis by simp
qed

text \<open>
  Claim C2. On a service whose \<open>N\<close> instances are all enabled, \<open>N\<close> consecutive
  selections return \<open>N\<close> pairwise distinct indices, which are exactly the indices
  \<open>0, \<dots>, N - 1\<close>: every instance is visited once before any is visited again. This
  holds from every cursor the gateway can hold, in range or beyond the end of the list
  (\<open>-1\<close>, the cursor before position 0, included).
\<close>

theorem round_robin_cyclic_coverage:
  assumes all: "\<forall>inst\<in>set (instances s). truthy (enabled inst)" and lo: "- 1 \<le> index s"
  shows "length (selections (length (instances s)) s) = length (instances s) \<and>
         distinct (selections (length (instances s)) s) \<and>
         set (selections (length (instances s)) s) = (\<lambda>i. Inr (int i)) ` {0..<length (instances s)}"
proof (cases "instances s = []")
  case True
  then show ?thesis by simp
next
  case False
  let ?N = "length (instances s)"
  let ?f = "\<lambda>i. (Inr ((newIndex s + int i) mod int ?N) :: exn + int)"
  have sel: "selections ?N s = map ?f [0..<?N]"
    using all False lo by (rule selections_all_enabled)
  have inj: "inj_on ?f {0..<?N}"
    by (rule inj_onI) (auto dest: shifted_mod_inj)
  have dist: "distinct (selections ?N s)" using inj by (simp add: sel distinct_map)
  have sub: "set (selections ?N s) \<subseteq> (\<lambda>i. Inr (int i)) ` {0..<?N}"
  proof
    fix r assume "r \<in> set (selections ?N s)"
    then obtain i where r: "r = Inr ((newIndex s + int i) mod int ?N)" by (auto simp: sel)
    have "0 \<le> (newIndex s + int i) mod int ?N" "(newIndex s + int i) mod int ?N < int ?N"
      using False by simp_all
    then have "nat ((newIndex s + int i) mod int ?N) \<in> {0..<?N}"
      and "int (nat ((newIndex s + int i) mod int ?N)) = (newIndex s + int i) mod int ?N" by auto
    then show "r \<in> (\<lambda>i. Inr (int i)) ` {0..<?N}" unfolding r by (metis imageI)
  qed
  have "card (set (selections ?N s)) = length (selections ?N s)" using dist by (rule distinct_card)
  then have "card (set (selections ?N s)) = ?N" by (simp add: sel)
  moreover have "card ((\<lambda>i. (Inr (int i) :: exn + int)) ` {0..<?N}) = ?N"
    by (simp add: card_image inj_on_def)
  ultimately have "set (selections ?N s) = (\<lambda>i. Inr (int i)) ` {0..<?N}"
    using sub by (intro card_subset_eq) simp_all
  with dist sel show ?thesis by simp
qed

theorem round_robin_cyclic_coverage_witness:
  "list_all (\<lambda>inst. truthy (enabled inst)) (instances svc3) \<and> - 1 \<le> index svc3 \<and>
   distinct (selections (length (instances svc3)) svc3) \<and>
   set (selections (length (instances svc3)) svc3) = (\<lambda>i. Inr (int i)) ` {0..<length (instances svc3)} \<and>
   selections 3 svc3 = [Inr 0, Inr 1, Inr 2]"
proof -
  have all: "\<forall>inst\<in>set (instances svc3). truthy (enabled inst)"
    by (simp add: svc3_def svc_def instA_def instB_def instC_def truthy_def)
  have lo: "- 1 \<le> index svc3" by (simp add: svc3_def svc_def)
  have "selections 3 svc3 = [Inr 0, Inr 1, Inr 2]"
    by (simp add: numeral_3_eq_3 ROUND_ROBIN.simps isEnabled_def newIndex_def svc3_def svc_def
        instA_def instB_def instC_def truthy_def)
  with round_robin_cyclic_coverage [OF all lo] all lo show ?thesis by (simp add: list_all_iff)
qed

section \<open>Properties of the registry routes\<close>

lemma fold_exists:
  "fold (\<lambda>inst exists. if url inst = u then True else exists) xs acc \<longleftrightarrow> acc \<or> u \<in> url ` set xs"
  by (induction xs arbitrary: acc) auto

lemma apiAlreadyExists_known:
  assumes "registry (apiName info) = Some service"
  shows "apiAlreadyExists registry info = Inr (url info \<in> url ` set (instances service))"
  using assms by (simp add: apiAlreadyExists_def fold_exists)

lemma register_duplicate:
  assumes "registry (apiName info) = Some service"
    and "Some (derivedUrl info) \<in> url ` set (instances service)"
  shows "register registry info writeError =
           (registry, Responded 400 (message (''Configuration already exists for '' @
              quoted (apiName info) @ '' at '' @ quoted (derivedUrl info))))"
  using assms by (simp add: register_def Let_def apiAlreadyExists_known tmpl_def)

lemma register_fresh:
  assumes "registry (apiName info) = Some service"
    and "Some (derivedUrl info) \<notin> url ` set (instances service)"
  shows "register registry info writeError =
           (registry(apiName info \<mapsto>
               service\<lparr>instances := instances service @ [info\<lparr>url := Some (derivedUrl info)\<rparr>]\<rparr>),
            persisted writeError (''Could not register '' @ quoted (apiName info))
              200 (''Successfully registered '' @ quoted (apiName info)))"
  using assms by (simp add: register_def Let_def apiAlreadyExists_known)

lemma status_persisted:
  "status (persisted writeError failure code success) =
     Some (case writeError of None \<Rightarrow> code | Some e \<Rightarrow> 500)"
  by (simp add: status_def persisted_def split: option.split)

lemma register_all_length:
  assumes "registry name = Some service" and "\<forall>call\<in>set calls. apiName (fst call) = name"
  shows "\<exists>service'. fst (register_all registry calls) name = Some service' \<and>
           length (instances service') = length (instances service) +
             length (filter (\<lambda>out. status out \<noteq> Some 400) (snd (register_all registry calls)))"
  using assms
proof (induction calls arbitrary: registry service)
  case Nil
  then show ?case by simp
next
  case (Cons call calls)
  obtain info writeError where call: "call = (info, writeError)" by (cases call)
  have name: "apiName info = name" using Cons.prems(2) call by simp
  have rest: "\<forall>call\<in>set calls. apiName (fst call) = name" using Cons.prems(2) by simp
  show ?case
  proof (cases "Some (derivedUrl info) \<in> url ` set (instances service)")
    case True
    have step: "register registry info writeError = (registry, Responded 400 (message (''Configuration already exists for '' @
              quoted (apiName info) @ '' at '' @ quoted (derivedUrl info))))"
      using Cons.prems(1) True name by (intro register_duplicate) simp_all
    from Cons.IH [of registry service, OF Cons.prems(1) rest]
    obtain service' where s': "fst (register_all registry calls) name = Some service'"
      and len: "length (instances service') = length (instances service) +
             length (filter (\<lambda>out. status out \<noteq> Some 400) (snd (register_all registry calls)))"
      by blast
    have "fst (register_all registry (call # calls)) = fst (register_all registry calls)"
      by (simp add: call step split_beta)
    moreover have "snd (register_all registry (call # calls)) =
        Responded 400 (message (''Configuration already exists for '' @
              quoted (apiName info) @ '' at '' @ quoted (derivedUrl info))) # snd (register_all registry calls)"
      by (simp add: call step split_beta)
    ultimately show ?thesis using s' len by (simp add: status_def)
  next
    case False
    let ?service = "service\<lparr>instances := instances service @ [info\<lparr>url := Some (derivedUrl info)\<rparr>]\<rparr>"
    let ?registry = "registry(name \<mapsto> ?service)"
    have step: "register registry info writeError =
           (?registry, persisted writeError (''Could not register '' @ quoted (apiName info))
              200 (''Successfully registered '' @ quoted (apiName info)))"
      using register_fresh [of registry info service writeError] Cons.prems(1) False name by simp
    have "?registry name = Some ?service" by simp
    from Cons.IH [of ?registry ?service, OF this rest]
    obtain service' where s': "fst (register_all ?registry calls) name = Some service'"
      and len: "length (instances service') = length (instances ?service) +
             length (filter (\<lambda>out. status out \<noteq> Some 400) (snd (register_all ?registry calls)))"
      by blast
    have ok: "status (persisted writeError (''Could not register '' @ quoted (apiName info))
              200 (''Successfully registered '' @ quoted (apiName info))) \<noteq> Some 400"
      by (simp add: status_persisted split: option.split)
    have "fst (register_all registry (call # calls)) = fst (register_all ?registry calls)"
      by (simp add: call step split_beta)
    moreover have "snd (register_all registry (call # calls)) =
        persisted writeError (''Could not register '' @ quoted (apiName info))
              200 (''Successfully registered '' @ quoted (apiName info)) # snd (register_all ?registry calls)"
      by (simp add: call step split_beta)
    ultimately show ?thesis using s' len ok by simp
  qed
qed

lemma register_all_outcomes:
  "length (snd (register_all registry calls)) = length calls"
  by (induction calls arbitrary: registry) (auto simp: split_beta)

lemma register_all_accepts_distinct:
  assumes "registry name = Some service" and "\<forall>call\<in>set calls. apiName (fst call) = name"
    and "distinct (map (\<lambda>call. derivedUrl (fst call)) calls)"
    and "\<forall>call\<in>set calls. Some (derivedUrl (fst call)) \<notin> url ` set (instances service)"
  shows "\<forall>out\<in>set (snd (register_all registry calls)). status out \<noteq> Some 400"
  using assms
proof (induction calls arbitrary: registry service)
  case Nil
  then show ?case by simp
next
  case (Cons call calls)
  obtain info writeError where call: "call = (info, writeError)" by (cases call)
  have name: "apiName info = name" using Cons.prems(2) call by simp
  have fresh: "Some (derivedUrl info) \<notin> url ` set (instances service)"
    using Cons.prems(4) call by simp
  let ?service = "service\<lparr>instances := instances service @ [info\<lparr>url := Some (derivedUrl info)\<rparr>]\<rparr>"
  let ?registry = "registry(name \<mapsto> ?service)"
  let ?out = "persisted writeError (''Could not register '' @ quoted (apiName info))
              200 (''Successfully registered '' @ quoted (apiName info))"
  have step: "register registry info writeError = (?registry, ?out)"
    using register_fresh [of registry info service writeError] Cons.prems(1) fresh name by simp
  have ok: "status ?out \<noteq> Some 400" by (simp add: status_persisted split: option.split)
  have "\<forall>out\<in>set (snd (register_all ?registry calls)). status out \<noteq> Some 400"
  proof (rule Cons.IH [of ?registry ?service])
    show "?registry name = Some ?service" by simp
    show "\<forall>call\<in>set calls. apiName (fst call) = name" using Cons.prems(2) by simp
    show "distinct (map (\<lambda>call. derivedUrl (fst call)) calls)" using Cons.prems(3) by simp
    show "\<forall>call\<in>set calls. Some (derivedUrl (fst call)) \<notin> url ` set (instances ?service)"
    proof
      fix c assume c: "c \<in> set calls"
      then have "derivedUrl (fst c) \<noteq> derivedUrl info" using Cons.prems(3) call by force
      moreover have "Some (derivedUrl (fst c)) \<notin> url ` set (instances service)"
        using Cons.prems(4) c by simp
      ultimately show "Some (derivedUrl (fst c)) \<notin> url ` set (instances ?service)" by auto
    qed
  qed
  moreover have "snd (register_all registry (call # calls)) = ?out # snd (register_all ?registry calls)"
    by (simp add: call step split_beta)
  ultimately show ?case using ok by simp
qed

text \<open>
  Claim C4. For a service the registry knows: a \<^verbatim>\<open>/register\<close> call whose derived url is
  already the url of one of the service's instances is answered with 400 and leaves the
  registry as it was; and after any sequence of \<^verbatim>\<open>/register\<close> calls for the service the
  instance list has grown by the number of calls that were not rejected with 400 (the
  registrations applied). When the derived urls of the calls are pairwise distinct and
  none is registered yet, no call is rejected and the list has grown by the number of
  calls.
\<close>

theorem register_rejects_duplicates_and_counts:
  assumes known: "registry name = Some service"
    and names: "\<forall>call\<in>set calls. apiName (fst call) = name"
  shows "(apiName info = name \<longrightarrow> Some (derivedUrl info) \<in> url ` set (instances service) \<longrightarrow>
            register registry info writeError =
              (registry, Responded 400 (message (''Configuration already exists for '' @
                 quoted name @ '' at '' @ quoted (derivedUrl info))))) \<and>
         (\<exists>service'. fst (register_all registry calls) name = Some service' \<and>
            length (instances service') = length (instances service) +
              length (filter (\<lambda>out. status out \<noteq> Some 400) (snd (register_all registry calls))) \<and>
            (distinct (map (\<lambda>call. derivedUrl (fst call)) calls) \<longrightarrow>
             (\<forall>call\<in>set calls. Some (derivedUrl (fst call)) \<notin> url ` set (instances service)) \<longrightarrow>
               (\<forall>out\<in>set (snd (register_all registry calls)). status out \<noteq> Some 400) \<and>
               length (instances service') = length (instances service) + length calls))"
proof (intro conjI impI)
  assume "apiName info = name" and "Some (derivedUrl info) \<in> url ` set (instances service)"
  then show "register registry info writeError =
              (registry, Responded 400 (message (''Configuration already exists for '' @
                 quoted name @ '' at '' @ quoted (derivedUrl info))))"
    using register_duplicate [of registry info service writeError] known by simp
next
  let ?outs = "snd (register_all registry calls)"
  from register_all_length [of registry name service calls, OF known names]
  obtain service' where s': "fst (register_all registry calls) name = Some service'"
    and len: "length (instances service') = length (instances service) +
              length (filter (\<lambda>out. status out \<noteq> Some 400) ?outs)"
    by blast
  have "(\<forall>out\<in>set ?outs. status out \<noteq> Some 400) \<and>
        length (instances service') = length (instances service) + length calls"
    if d: "distinct (map (\<lambda>call. derivedUrl (fst call)) calls)"
      and f: "\<forall>call\<in>set calls. Some (derivedUrl (fst call)) \<notin> url ` set (instances service)"
  proof -
    have acc: "\<forall>out\<in>set ?outs. status out \<noteq> Some 400"
      using known names d f by (rule register_all_accepts_distinct)
    then have "filter (\<lambda>out. status out \<noteq> Some 400) ?outs = ?outs" by simp
    with len acc show ?thesis by (simp add: register_all_outcomes)
  qed
  with s' len show "\<exists>service'. fst (register_all registry calls) name = Some service' \<and>
            length (instances service') = length (instances service) +
              length (filter (\<lambda>out. status out \<noteq> Some 400) (snd (register_all registry calls))) \<and>
            (distinct (map (\<lambda>call. derivedUrl (fst call)) calls) \<longrightarrow>
             (\<forall>call\<in>set calls. Some (derivedUrl (fst call)) \<notin> url ` set (instances service)) \<longrightarrow>
               (\<forall>out\<in>set (snd (register_all registry calls)). status out \<noteq> Some 400) \<and>
               length (instances service') = length (instances service) + length calls)"
    by blast
qed

theorem register_rejects_duplicates_and_counts_witness:
  "regA ''foo'' = Some (svc [instA] 0) \<and>
   list_all (\<lambda>call. apiName (fst call) = ''foo'') callsH \<and>
   apiName bodyH1 = ''foo'' \<and>
   Some (derivedUrl bodyH1) \<in> url ` set (instances (svc [instA] 0)) \<and>
   distinct (map (\<lambda>call. derivedUrl (fst call)) callsH) \<and>
   list_all (\<lambda>call. Some (derivedUrl (fst call)) \<notin> url ` set (instances (svc [instA] 0))) callsH \<and>
   register regA bodyH1 None =
     (regA, Responded 400 (message (''Configuration already exists for '' @
                 quoted ''foo'' @ '' at '' @ quoted (derivedUrl bodyH1)))) \<and>
   (\<exists>service'. fst (register_all regA callsH) ''foo'' = Some service' \<and>
      length (instances service') = 3 \<and>
      list_all (\<lambda>out. status out \<noteq> Some 400) (snd (register_all regA callsH)))"
proof -
  have known: "regA ''foo'' = Some (svc [instA] 0)" by (simp add: regA_def)
  have names: "\<forall>call\<in>set callsH. apiName (fst call) = ''foo''"
    by (simp add: callsH_def bodyH1_def bodyH2_def)
  have name: "apiName bodyH1 = ''foo''" by (simp add: bodyH1_def)
  have dup: "Some (derivedUrl bodyH1) \<in> url ` set (instances (svc [instA] 0))"
    by (simp add: derivedUrl_def bodyH1_def svc_def instA_def)
  have dist: "distinct (map (\<lambda>call. derivedUrl (fst call)) callsH)"
    by (simp add: callsH_def derivedUrl_def bodyH1_def bodyH2_def)
  have fresh: "\<forall>call\<in>set callsH. Some (derivedUrl (fst call)) \<notin> url ` set (instances (svc [instA] 0))"
    by (simp add: callsH_def derivedUrl_def bodyH1_def bodyH2_def svc_def instA_def)
  have len: "length (instances (svc [instA] 0)) + length callsH = 3"
    by (simp add: svc_def callsH_def)
  note t = register_rejects_duplicates_and_counts
             [of regA "''foo''" "svc [instA] 0" callsH bodyH1 None, OF known names]
  from t name dup have rej: "register regA bodyH1 None =
     (regA, Responded 400 (message (''Configuration already exists for '' @
                 quoted ''foo'' @ '' at '' @ quoted (derivedUrl bodyH1))))" by blast
  from t dist fresh len have "\<exists>service'. fst (register_all regA callsH) ''foo'' = Some service' \<and>
      length (instances service') = 3 \<and>
      list_all (\<lambda>out. status out \<noteq> Some 400) (snd (register_all regA callsH))"
    by (auto simp: list_all_iff)
  moreover have "list_all (\<lambda>call. apiName (fst call) = ''foo'') callsH"
    using names by (simp add: list_all_iff)
  moreover have "list_all (\<lambda>call. Some (derivedUrl (fst call)) \<notin> url ` set (instances (svc [instA] 0))) callsH"
    using fresh by (simp add: list_all_iff)
  ultimately show ?thesis using known name dup dist rej by (intro conjI)
qed

text \<open>Three calls on the empty service: accepted, accepted with a failed write, and
  rejected as a duplicate.\<close>

lemma example_registrations:
  "map status (snd (register_all regFoo [(bodyH1, None), (bodyH2, Some ''EACCES''), (bodyH1, None)]))
     = [Some 200, Some 500, Some 400]"
  by (simp add: regFoo_def svc_def bodyH1_def bodyH2_def register_def apiAlreadyExists_def
      derivedUrl_def persisted_def status_def Let_def)

lemma register_example: "register regFoo bodyH1 None = (regH1, Responded 200 (message (''Successfully registered '' @ quoted ''foo'')))"
  by (simp add: regFoo_def regH1_def svc_def bodyH1_def register_def apiAlreadyExists_def
      derivedUrl_def persisted_def Let_def)

text \<open>
  Claim C8. In \<^verbatim>\<open>/register\<close>, \<^verbatim>\<open>/unregister\<close> and \<^verbatim>\<open>/enableOrDisable\<close> the registry is
  changed before the image is written, and the result of the write only chooses the
  response: the registry after a failed write is the registry after a successful one,
  and a call that is confirmed (200, 201, 200) when the write succeeds is answered with
  500 and a message naming the failure when the write fails.
\<close>

theorem persist_failure_reported_not_rolled_back:
  "fst (register registry info (Some e)) = fst (register registry info None) \<and>
   fst (unregister registry info (Some e)) = fst (unregister registry info None) \<and>
   fst (enableOrDisable registry name bodyUrl bodyEnabled (Some e)) =
     fst (enableOrDisable registry name bodyUrl bodyEnabled None) \<and>
   (status (snd (register registry info None)) = Some 200 \<longrightarrow>
      snd (register registry info (Some e)) =
        Responded 500 (message (''Could not register '' @ quoted (apiName info) @ [CHR 0x0A] @ e))) \<and>
   (status (snd (unregister registry info None)) = Some 201 \<longrightarrow>
      snd (unregister registry info (Some e)) =
        Responded 500 (message (''Could not unregister '' @ quoted (apiName info) @ [CHR 0x0A] @ e))) \<and>
   (status (snd (enableOrDisable registry name bodyUrl bodyEnabled None)) = Some 200 \<longrightarrow>
      snd (enableOrDisable registry name bodyUrl bodyEnabled (Some e)) =
        Responded 500 (message (''Could not enable/disable '' @ quoted (tmpl bodyUrl) @
                                '' for service '' @ quoted name @ [CHR 0x0A] @ e)))"
proof (intro conjI)
  show "fst (register registry info (Some e)) = fst (register registry info None)"
    by (simp add: register_def Let_def split: sum.split bool.split option.split)
  show "fst (unregister registry info (Some e)) = fst (unregister registry info None)"
    by (simp add: unregister_def Let_def split: sum.split bool.split option.split)
  show "fst (enableOrDisable registry name bodyUrl bodyEnabled (Some e)) =
     fst (enableOrDisable registry name bodyUrl bodyEnabled None)"
    by (simp add: enableOrDisable_def Let_def split: option.split)
  show "status (snd (register registry info None)) = Some 200 \<longrightarrow>
      snd (register registry info (Some e)) =
        Responded 500 (message (''Could not register '' @ quoted (apiName info) @ [CHR 0x0A] @ e))"
    by (simp add: register_def Let_def status_def persisted_def
        split: sum.split bool.split option.split)
  show "status (snd (unregister registry info None)) = Some 201 \<longrightarrow>
      snd (unregister registry info (Some e)) =
        Responded 500 (message (''Could not unregister '' @ quoted (apiName info) @ [CHR 0x0A] @ e))"
    by (simp add: unregister_def Let_def status_def persisted_def
        split: sum.split bool.split option.split)
  show "status (snd (enableOrDisable registry name bodyUrl bodyEnabled None)) = Some 200 \<longrightarrow>
      snd (enableOrDisable registry name bodyUrl bodyEnabled (Some e)) =
        Responded 500 (message (''Could not enable/disable '' @ quoted (tmpl bodyUrl) @
                                '' for service '' @ quoted name @ [CHR 0x0A] @ e))"
    by (simp add: enableOrDisable_def Let_def status_def persisted_def split: option.split)
qed

theorem persist_failure_reported_not_rolled_back_witness:
  "status (snd (register regFoo bodyH1 None)) = Some 200 \<and>
   register regFoo bodyH1 (Some ''EACCES'') =
     (regH1, Responded 500 (message (''Could not register '' @ quoted ''foo'' @ [CHR 0x0A] @ ''EACCES''))) \<and>
   status (snd (unregister regA instA None)) = Some 201 \<and>
   unregister regA instA (Some ''EACCES'') =
     (regFoo, Responded 500 (message (''Could not unregister '' @ quoted ''foo'' @ [CHR 0x0A] @ ''EACCES''))) \<and>
   status (snd (enableOrDisable regA ''foo'' (Some ''http://h1:1/'') (Some False) None)) = Some 200 \<and>
   enableOrDisable regA ''foo'' (Some ''http://h1:1/'') (Some False) (Some ''EACCES'') =
     ([''foo'' \<mapsto> svc [instA\<lparr>enabled := Some False\<rparr>] 0],
      Responded 500 (message (''Could not enable/disable '' @ quoted ''http://h1:1/'' @
                              '' for service '' @ quoted ''foo'' @ [CHR 0x0A] @ ''EACCES'')))"
proof -
  note t = persist_failure_reported_not_rolled_back
  have r: "register regFoo bodyH1 None = (regH1, Responded 200 (message (''Successfully registered '' @ quoted ''foo'')))"
    by (rule register_example)
  have u: "unregister regA instA None = (regFoo, Responded 201 (message (''Successfully unregistered '' @ quoted ''foo'')))"
    by (simp add: regA_def regFoo_def svc_def instA_def unregister_def apiAlreadyExists_def
        splice1_def persisted_def Let_def)
  have d: "enableOrDisable regA ''foo'' (Some ''http://h1:1/'') (Some False) None =
     ([''foo'' \<mapsto> svc [instA\<lparr>enabled := Some False\<rparr>] 0],
      Responded 200 (message (''Successfully enable/disable '' @ quoted ''http://h1:1/'' @
                              '' for service '' @ quoted ''foo'')))"
    by (simp add: regA_def svc_def instA_def enableOrDisable_def persisted_def Let_def tmpl_def)
  have r': "status (snd (register regFoo bodyH1 None)) = Some 200" by (simp add: r status_def)
  have u': "status (snd (unregister regA instA None)) = Some 201" by (simp add: u status_def)
  have d': "status (snd (enableOrDisable regA ''foo'' (Some ''http://h1:1/'') (Some False) None)) = Some 200"
    by (simp add: d status_def)
  from t [of regFoo bodyH1 "''EACCES''"] r r'
  have 1: "register regFoo bodyH1 (Some ''EACCES'') =
     (regH1, Responded 500 (message (''Could not register '' @ quoted ''foo'' @ [CHR 0x0A] @ ''EACCES'')))"
    by (simp add: prod_eq_iff bodyH1_def)
  from t [of regA instA "''EACCES''"] u u'
  have 2: "unregister regA instA (Some ''EACCES'') =
     (regFoo, Responded 500 (message (''Could not unregister '' @ quoted ''foo'' @ [CHR 0x0A] @ ''EACCES'')))"
    by (simp add: prod_eq_iff instA_def)
  from t [of regA instA "''EACCES''" "''foo''" "Some ''http://h1:1/''" "Some False"] d d'
  have 3: "enableOrDisable regA ''foo'' (Some ''http://h1:1/'') (Some False) (Some ''EACCES'') =
     ([''foo'' \<mapsto> svc [instA\<lparr>enabled := Some False\<rparr>] 0],
      Responded 500 (message (''Could not enable/disable '' @ quoted ''http://h1:1/'' @
                              '' for service '' @ quoted ''foo'' @ [CHR 0x0A] @ ''EACCES'')))"
    by (simp add: prod_eq_iff tmpl_def)
  from r' u' d' 1 2 3 show ?thesis by (intro conjI)
qed

lemma findIndex_absent: "\<not> list_ex P xs \<Longrightarrow> findIndex P xs = - 1"
  by (induction xs) (auto simp: Let_def)

lemma findIndex_present:
  "list_ex P xs \<Longrightarrow>
     0 \<le> findIndex P xs \<and> findIndex P xs < int (length xs) \<and> P (xs ! nat (findIndex P xs)) \<and>
     (\<forall>j<nat (findIndex P xs). \<not> P (xs ! j))"
proof (induction xs)
  case Nil
  then show ?case by simp
next
  case (Cons x xs)
  show ?case
  proof (cases "P x")
    case True
    then show ?thesis by simp
  next
    case False
    with Cons.prems have ex: "list_ex P xs" by simp
    from Cons.IH [OF ex] have lo: "0 \<le> findIndex P xs"
      and hi: "findIndex P xs < int (length xs)"
      and sat: "P (xs ! nat (findIndex P xs))"
      and first: "\<forall>j<nat (findIndex P xs). \<not> P (xs ! j)" by blast+
    from lo have ne: "findIndex P xs \<noteq> - 1" by linarith
    have eq: "findIndex P (x # xs) = findIndex P xs + 1" using False ne by (simp add: Let_def)
    have n: "nat (findIndex P xs + 1) = Suc (nat (findIndex P xs))" using lo by linarith
    have "\<not> P ((x # xs) ! j)" if "j < Suc (nat (findIndex P xs))" for j
      using that False first by (cases j) auto
    then show ?thesis using lo hi sat by (simp add: eq n)
  qed
qed

lemma findIndex_found:
  assumes "list_ex P xs"
  shows "0 \<le> findIndex P xs" and "nat (findIndex P xs) < length xs"
    and "P (xs ! nat (findIndex P xs))" and "\<forall>j<nat (findIndex P xs). \<not> P (xs ! j)"
proof -
  from findIndex_present [OF assms] show "0 \<le> findIndex P xs"
    and hi: "P (xs ! nat (findIndex P xs))" and "\<forall>j<nat (findIndex P xs). \<not> P (xs ! j)"
    and "nat (findIndex P xs) < length xs"
    by (blast, blast, blast, linarith)
qed

lemma splice1_in_range:
  "0 \<le> i \<Longrightarrow> i < int (length xs) \<Longrightarrow> splice1 xs i = take (nat i) xs @ drop (Suc (nat i)) xs"
  by (simp add: splice1_def Let_def min_def)

text \<open>What \<^verbatim>\<open>/unregister\<close> does for a service the registry knows: it looks for the url
  that the body carries. Without an instance of that url the answer is 404 and the
  registry is unchanged; otherwise the first instance with that url is removed.\<close>

lemma unregister_known:
  assumes known: "registry (apiName info) = Some service"
  shows "(url info \<notin> url ` set (instances service) \<longrightarrow>
            unregister registry info writeError =
              (registry, Responded 404 (message (''Configuration does not exist for '' @
                 quoted (apiName info) @ '' at '' @ quoted (tmpl (url info)))))) \<and>
         (url info \<in> url ` set (instances service) \<longrightarrow>
            (\<exists>k<length (instances service).
               url (instances service ! k) = url info \<and>
               (\<forall>j<k. url (instances service ! j) \<noteq> url info) \<and>
               unregister registry info writeError =
                 (registry(apiName info \<mapsto> service\<lparr>instances :=
                     take k (instances service) @ drop (Suc k) (instances service)\<rparr>),
                  persisted writeError (''Could not unregister '' @ quoted (apiName info))
                    201 (''Successfully unregistered '' @ quoted (apiName info)))))"
proof (intro conjI impI)
  assume "url info \<notin> url ` set (instances service)"
  then show "unregister registry info writeError =
              (registry, Responded 404 (message (''Configuration does not exist for '' @
                 quoted (apiName info) @ '' at '' @ quoted (tmpl (url info)))))"
    using known by (simp add: unregister_def apiAlreadyExists_known)
next
  let ?xs = "instances service" and ?P = "\<lambda>inst. url info = url inst"
  let ?i = "findIndex ?P ?xs"
  assume m: "url info \<in> url ` set ?xs"
  then have ex: "list_ex ?P ?xs" by (auto simp: list_ex_iff)
  note f = findIndex_found [OF ex]
  have "unregister registry info writeError =
          (registry(apiName info \<mapsto> service\<lparr>instances := splice1 ?xs ?i\<rparr>),
           persisted writeError (''Could not unregister '' @ quoted (apiName info))
                    201 (''Successfully unregistered '' @ quoted (apiName info)))"
    using known m by (simp add: unregister_def apiAlreadyExists_known Let_def)
  moreover have "splice1 ?xs ?i = take (nat ?i) ?xs @ drop (Suc (nat ?i)) ?xs"
    using f(1,2) by (intro splice1_in_range) linarith+
  moreover note f(2)
  moreover have "url (?xs ! nat ?i) = url info" using f(3) by simp
  moreover have "\<forall>j<nat ?i. url (?xs ! j) \<noteq> url info" using f(4) by metis
  ultimately show "\<exists>k<length ?xs. url (?xs ! k) = url info \<and>
               (\<forall>j<k. url (?xs ! j) \<noteq> url info) \<and>
               unregister registry info writeError =
                 (registry(apiName info \<mapsto> service\<lparr>instances :=
                     take k ?xs @ drop (Suc k) ?xs\<rparr>),
                  persisted writeError (''Could not unregister '' @ quoted (apiName info))
                    201 (''Successfully unregistered '' @ quoted (apiName info)))"
    by (intro exI [of _ "nat ?i"]) simp
qed

text \<open>
  Claim C6. The claim has \<^verbatim>\<open>/unregister\<close> derive the url from protocol, host and port as
  \<^verbatim>\<open>/register\<close> does. The handler does not: it compares the body's own \<^verbatim>\<open>url\<close>. A
  backend that registered with \<^verbatim>\<open>{apiName, protocol, host, port}\<close> and unregisters
  with the same body is answered 404, and its instance, registered under the derived
  url, stays in the list.
\<close>

theorem unregister_does_not_derive_url:
  "register regFoo bodyH1 None =
     (regH1, Responded 200 (message (''Successfully registered '' @ quoted ''foo''))) \<and>
   map url (instances (the (regH1 ''foo''))) = [Some (derivedUrl bodyH1)] \<and>
   unregister regH1 bodyH1 None =
     (regH1, Responded 404 (message (''Configuration does not exist for '' @ quoted ''foo'' @
                                     '' at '' @ quoted ''undefined'')))"
  by (simp add: regFoo_def regH1_def svc_def bodyH1_def register_def unregister_def
      apiAlreadyExists_def derivedUrl_def persisted_def tmpl_def Let_def)

text \<open>What \<^verbatim>\<open>/enableOrDisable\<close> does for a service the registry knows: 404 and an
  unchanged registry when no instance has the url, otherwise the \<^verbatim>\<open>enabled\<close> of the
  first instance with that url is set.\<close>

lemma enableOrDisable_known:
  assumes known: "registry name = Some service"
  shows "(bodyUrl \<notin> url ` set (instances service) \<longrightarrow>
            enableOrDisable registry name bodyUrl bodyEnabled writeError =
              (registry, Responded 404 (JObj [(''status'', JStr ''error''),
                 (''message'', JStr (''Could not find '' @ quoted (tmpl bodyUrl) @
                                     '' for service '' @ quoted name))]))) \<and>
         (bodyUrl \<in> url ` set (instances service) \<longrightarrow>
            (\<exists>k<length (instances service).
               url (instances service ! k) = bodyUrl \<and>
               (\<forall>j<k. url (instances service ! j) \<noteq> bodyUrl) \<and>
               enableOrDisable registry name bodyUrl bodyEnabled writeError =
                 (registry(name \<mapsto> service\<lparr>instances :=
                     (instances service)[k := (instances service ! k)\<lparr>enabled := bodyEnabled\<rparr>]\<rparr>),
                  persisted writeError
                    (''Could not enable/disable '' @ quoted (tmpl bodyUrl) @
                     '' for service '' @ quoted name)
                    200 (''Successfully enable/disable '' @ quoted (tmpl bodyUrl) @
                         '' for service '' @ quoted name))))"
proof (intro conjI impI)
  assume "bodyUrl \<notin> url ` set (instances service)"
  then have "\<not> list_ex (\<lambda>s. url s = bodyUrl) (instances service)" by (auto simp: list_ex_iff)
  then have "findIndex (\<lambda>s. url s = bodyUrl) (instances service) = - 1" by (rule findIndex_absent)
  then show "enableOrDisable registry name bodyUrl bodyEnabled writeError =
              (registry, Responded 404 (JObj [(''status'', JStr ''error''),
                 (''message'', JStr (''Could not find '' @ quoted (tmpl bodyUrl) @
                                     '' for service '' @ quoted name))]))"
    using known by (simp add: enableOrDisable_def)
next
  let ?xs = "instances service" and ?P = "\<lambda>s. url s = bodyUrl"
  let ?i = "findIndex ?P ?xs"
  assume "bodyUrl \<in> url ` set ?xs"
  then have ex: "list_ex ?P ?xs" by (auto simp: list_ex_iff)
  note f = findIndex_found [OF ex]
  from f(1) have ne: "?i \<noteq> - 1" by linarith
  have "enableOrDisable registry name bodyUrl bodyEnabled writeError =
                 (registry(name \<mapsto> service\<lparr>instances :=
                     ?xs[nat ?i := (?xs ! nat ?i)\<lparr>enabled := bodyEnabled\<rparr>]\<rparr>),
                  persisted writeError
                    (''Could not enable/disable '' @ quoted (tmpl bodyUrl) @
                     '' for service '' @ quoted name)
                    200 (''Successfully enable/disable '' @ quoted (tmpl bodyUrl) @
                         '' for service '' @ quoted name))"
    using known ne by (simp add: enableOrDisable_def Let_def)
  moreover note f(2,3,4)
  ultimately show "\<exists>k<length ?xs. url (?xs ! k) = bodyUrl \<and>
               (\<forall>j<k. url (?xs ! j) \<noteq> bodyUrl) \<and>
               enableOrDisable registry name bodyUrl bodyEnabled writeError =
                 (registry(name \<mapsto> service\<lparr>instances :=
                     ?xs[k := (?xs ! k)\<lparr>enabled := bodyEnabled\<rparr>]\<rparr>),
                  persisted writeError
                    (''Could not enable/disable '' @ quoted (tmpl bodyUrl) @
                     '' for service '' @ quoted name)
                    200 (''Successfully enable/disable '' @ quoted (tmpl bodyUrl) @
                         '' for service '' @ quoted name))"
    by (intro exI [of _ "nat ?i"]) simp
qed

text \<open>
  Claim C7. For a service name the registry does not have, the claim asks for a 404.
  The handler reads \<^verbatim>\<open>registry.services[apiName].instances\<close> without a check, so a
  \<^verbatim>\<open>TypeError\<close> leaves it; no flag changes, and what \<^verbatim>\<open>errorHandler\<close> makes of the
  exception is a 500.
\<close>

theorem enableOrDisable_unknown_service_throws:
  "regA ''bar'' = None \<and>
   enableOrDisable regA ''bar'' (Some ''http://h1:1/'') (Some False) None = (regA, Uncaught TypeError) \<and>
   errorHandler TypeError =
     Responded 500 (JObj [(''error'', JStr ''Internal Server Error. Please try again later.'')])"
  by (simp add: regA_def enableOrDisable_def errorHandler_def)

section \<open>The cursor invariant\<close>

text \<open>
  Claim C9, as stated, fails. \<^verbatim>\<open>/unregister\<close> splices the instance out and does not
  touch \<^verbatim>\<open>index\<close>: with two instances and the cursor on the second, unregistering the
  second leaves one instance and the cursor 1, which is no index into the list.
\<close>

theorem unregister_leaves_cursor_past_end:
  "cursor_valid (svc [instA, instB] 1) \<and>
   unregister regAB instB None =
     ([''foo'' \<mapsto> svc [instA] 1],
      Responded 201 (message (''Successfully unregistered '' @ quoted ''foo''))) \<and>
   \<not> cursor_valid (svc [instA] 1)"
  by (simp add: cursor_valid_def regAB_def svc_def instA_def instB_def unregister_def
      apiAlreadyExists_def splice1_def persisted_def Let_def)

lemma ROUND_ROBIN_cursor:
  assumes "instances s \<noteq> []" and "- 1 \<le> index s"
  shows "instances (fst (ROUND_ROBIN s)) = instances s \<and>
         0 \<le> index (fst (ROUND_ROBIN s)) \<and>
         index (fst (ROUND_ROBIN s)) < int (length (instances s))"
proof (cases "list_ex (\<lambda>inst. truthy (enabled inst)) (instances s)")
  case True
  have "nextEnabled (instances s) (nat (newIndex s)) < length (instances s)"
    using assms(1) by (simp add: nextEnabled_def)
  then show ?thesis using ROUND_ROBIN_result [OF True assms(2)] by simp
next
  case False
  have "0 \<le> newIndex s" "newIndex s < int (length (instances s))"
    using assms by (simp_all add: newIndex_def)
  then show ?thesis using ROUND_ROBIN_none_enabled [OF False] by simp
qed

lemma ROUND_ROBIN_cursor_valid:
  assumes "cursor_valid s \<or> - 1 \<le> index s"
  shows "cursor_valid (fst (ROUND_ROBIN s))"
proof (cases "instances s = []")
  case True
  then have "\<not> list_ex (\<lambda>inst. truthy (enabled inst)) (instances s)" by simp
  from ROUND_ROBIN_none_enabled [OF this] True show ?thesis by (simp add: cursor_valid_def)
next
  case False
  with assms have "- 1 \<le> index s" by (auto simp: cursor_valid_def)
  from ROUND_ROBIN_cursor [OF False this] show ?thesis by (simp add: cursor_valid_def)
qed

lemma select_cursor_valid:
  assumes "cursor_valid s"
  shows "cursor_valid (fst (select strategy s))"
  using assms ROUND_ROBIN_cursor_valid [of s] by (simp add: select_def)

lemma forward_registry:
  "fst (forward registry polluted name req axios defaultWrite) =
     (case registry name of
        None \<Rightarrow> registry
      | Some service \<Rightarrow>
          (let service1 =
                 (if seenStrategy polluted service = None \<or> seenStrategy polluted service = Some []
                  then service\<lparr>loadBalanceStrategy := Some ''ROUND_ROBIN''\<rparr> else service)
           in registry(name \<mapsto> fst (select (seenStrategy polluted service1) service1))))"
  by (simp add: forward_def Let_def split_beta split: option.split sum.split)

lemma splice1_length: "length (splice1 xs i) \<le> length xs"
  by (simp add: splice1_def Let_def)

text \<open>
  Claim C9, amended. Let a service be in the registry. \<^verbatim>\<open>/enableOrDisable\<close> keeps the
  cursor valid; so does \<^verbatim>\<open>/register\<close> when the service has instances already (or its
  cursor is 0); a selection keeps it valid, and makes it valid from every cursor that is
  at least \<open>-1\<close>, whether it returns an index or throws; forwarding a request keeps it
  valid. \<^verbatim>\<open>/unregister\<close> leaves the cursor as it is while the list may get shorter, so
  the cursor can lie at or beyond the end until the next selection restarts at 0
  (claim C10).
\<close>

theorem cursor_validity_by_operation:
  assumes known: "registry n = Some service"
  shows "(fst (enableOrDisable registry name bodyUrl bodyEnabled writeError) n = Some service' \<longrightarrow>
            cursor_valid service \<longrightarrow> cursor_valid service') \<and>
         (fst (register registry info writeError) n = Some service' \<longrightarrow>
            cursor_valid service \<longrightarrow> instances service \<noteq> [] \<or> index service = 0 \<longrightarrow>
            cursor_valid service') \<and>
         (cursor_valid service \<or> - 1 \<le> index service \<longrightarrow> cursor_valid (fst (ROUND_ROBIN service))) \<and>
         (fst (forward registry polluted name req axios defaultWrite) n = Some service' \<longrightarrow>
            cursor_valid service \<longrightarrow> cursor_valid service') \<and>
         (fst (unregister registry info writeError) n = Some service' \<longrightarrow>
            index service' = index service \<and>
            length (instances service') \<le> length (instances service))"
proof (intro conjI impI)
  assume "fst (enableOrDisable registry name bodyUrl bodyEnabled writeError) n = Some service'"
    and "cursor_valid service"
  then show "cursor_valid service'" using known
    by (auto simp: enableOrDisable_def Let_def cursor_valid_def split: option.splits if_splits)
next
  assume "fst (register registry info writeError) n = Some service'"
    and "cursor_valid service" and "instances service \<noteq> [] \<or> index service = 0"
  then show "cursor_valid service'" using known
    by (auto simp: register_def Let_def cursor_valid_def
        split: option.splits sum.splits bool.splits if_splits)
next
  assume "cursor_valid service \<or> - 1 \<le> index service"
  then show "cursor_valid (fst (ROUND_ROBIN service))" by (rule ROUND_ROBIN_cursor_valid)
next
  assume f: "fst (forward registry polluted name req axios defaultWrite) n = Some service'"
    and v: "cursor_valid service"
  show "cursor_valid service'"
  proof (cases "name = n")
    case True
    let ?s1 = "if seenStrategy polluted service = None \<or> seenStrategy polluted service = Some []
             then service\<lparr>loadBalanceStrategy := Some ''ROUND_ROBIN''\<rparr> else service"
    have "cursor_valid ?s1" using v by (simp add: cursor_valid_def)
    then have "cursor_valid (fst (select (seenStrategy polluted ?s1) ?s1))"
      by (rule select_cursor_valid)
    moreover have "service' = fst (select (seenStrategy polluted ?s1) ?s1)"
      using f known True by (simp add: forward_registry Let_def)
    ultimately show ?thesis by simp
  next
    case False
    then have "service' = service" using f known
      by (simp add: forward_registry Let_def split: option.splits)
    with v show ?thesis by simp
  qed
next
  assume u: "fst (unregister registry info writeError) n = Some service'"
  then show "index service' = index service" using known
    by (auto simp: unregister_def Let_def split: option.splits sum.splits bool.splits if_splits)
  from u show "length (instances service') \<le> length (instances service)" using known
    by (auto simp: unregister_def Let_def splice1_length
        split: option.splits sum.splits bool.splits if_splits)
qed

theorem cursor_validity_by_operation_witness:
  "regAB ''foo'' = Some (svc [instA, instB] 1) \<and> cursor_valid (svc [instA, instB] 1) \<and>
   fst (enableOrDisable regAB ''foo'' (Some ''http://h1:1/'') (Some False) None) ''foo'' =
     Some (svc [instA\<lparr>enabled := Some False\<rparr>, instB] 1) \<and>
   cursor_valid (svc [instA\<lparr>enabled := Some False\<rparr>, instB] 1) \<and>
   fst (register regAB (bodyH1\<lparr>host := ''h9''\<rparr>) None) ''foo'' =
     Some (svc [instA, instB, bodyH1\<lparr>host := ''h9'', url := Some ''http://h9:1/''\<rparr>] 1) \<and>
   cursor_valid (svc [instA, instB, bodyH1\<lparr>host := ''h9'', url := Some ''http://h9:1/''\<rparr>] 1) \<and>
   cursor_valid (fst (ROUND_ROBIN (svc [instA, instB] 1))) \<and>
   fst (forward regAB {} ''foo'' reqItems axiosOk None) ''foo'' = Some (svc [instA, instB] 0) \<and>
   cursor_valid (svc [instA, instB] 0) \<and>
   fst (unregister regAB instB None) ''foo'' = Some (svc [instA] 1) \<and>
   index (svc [instA] 1) = index (svc [instA, instB] 1) \<and>
   length (instances (svc [instA] 1)) \<le> length (instances (svc [instA, instB] 1))"
proof -
  let ?s = "svc [instA, instB] 1"
  have known: "regAB ''foo'' = Some ?s" by (simp add: regAB_def)
  have v: "cursor_valid ?s" by (simp add: cursor_valid_def svc_def)
  have e: "fst (enableOrDisable regAB ''foo'' (Some ''http://h1:1/'') (Some False) None) ''foo'' =
     Some (svc [instA\<lparr>enabled := Some False\<rparr>, instB] 1)"
    by (simp add: regAB_def svc_def instA_def instB_def enableOrDisable_def Let_def)
  have r: "fst (register regAB (bodyH1\<lparr>host := ''h9''\<rparr>) None) ''foo'' =
     Some (svc [instA, instB, bodyH1\<lparr>host := ''h9'', url := Some ''http://h9:1/''\<rparr>] 1)"
    by (simp add: regAB_def svc_def instA_def instB_def bodyH1_def register_def
        apiAlreadyExists_def derivedUrl_def Let_def)
  have f: "fst (forward regAB {} ''foo'' reqItems axiosOk None) ''foo'' = Some (svc [instA, instB] 0)"
    by (simp add: forward_registry regAB_def svc_def instA_def instB_def select_def seenStrategy_def
        ROUND_ROBIN.simps isEnabled_def newIndex_def truthy_def Let_def)
  have u: "fst (unregister regAB instB None) ''foo'' = Some (svc [instA] 1)"
    by (simp add: regAB_def svc_def instA_def instB_def unregister_def
        apiAlreadyExists_def splice1_def Let_def)
  have ne: "instances ?s \<noteq> [] \<or> index ?s = 0" by (simp add: svc_def)
  from cursor_validity_by_operation
         [where registry = regAB and n = "''foo''" and service = ?s and name = "''foo''"
            and bodyUrl = "Some ''http://h1:1/''" and bodyEnabled = "Some False"
            and writeError = None
            and service' = "svc [instA\<lparr>enabled := Some False\<rparr>, instB] 1", OF known] e v
  have 1: "cursor_valid (svc [instA\<lparr>enabled := Some False\<rparr>, instB] 1)" by blast
  from cursor_validity_by_operation
         [where registry = regAB and n = "''foo''" and service = ?s
            and info = "bodyH1\<lparr>host := ''h9''\<rparr>" and writeError = None
            and service' = "svc [instA, instB, bodyH1\<lparr>host := ''h9'', url := Some ''http://h9:1/''\<rparr>] 1",
          OF known] r v ne
  have 2: "cursor_valid (svc [instA, instB, bodyH1\<lparr>host := ''h9'', url := Some ''http://h9:1/''\<rparr>] 1)"
    by blast
  from cursor_validity_by_operation
         [where registry = regAB and n = "''foo''" and service = ?s, OF known] v
  have 3: "cursor_valid (fst (ROUND_ROBIN ?s))" by blast
  from cursor_validity_by_operation
         [where registry = regAB and n = "''foo''" and service = ?s and name = "''foo''"
            and polluted = "{}" and req = reqItems and axios = axiosOk and defaultWrite = None
            and service' = "svc [instA, instB] 0",
          OF known] f v
  have 4: "cursor_valid (svc [instA, instB] 0)" by blast
  from cursor_validity_by_operation
         [where registry = regAB and n = "''foo''" and service = ?s and info = instB
            and writeError = None and service' = "svc [instA] 1", OF known] u
  have 5: "index (svc [instA] 1) = index ?s"
    and 6: "length (instances (svc [instA] 1)) \<le> length (instances ?s)" by blast+
  from known v e 1 r 2 3 f 4 u 5 6 show ?thesis by (intro conjI)
qed

section \<open>Properties of forwarding\<close>




text \<open>Reading \<^verbatim>\<open>.message\<close> of a body \<^verbatim>\<open>null\<close> throws inside the \<^verbatim>\<open>catch\<close>.\<close>

lemma relay_rejected_null: "relay (RejectedResponse code JNull) = Uncaught TypeError"
  by (simp add: relay_def property_def)

lemma forward_known:
  assumes "registry name = Some service"
    and "loadBalanceStrategy service \<in> {None, Some [], Some ''ROUND_ROBIN''}"
  shows "forward registry polluted name req axios defaultWrite =
     (let defaulted = (seenStrategy polluted service = None \<or> seenStrategy polluted service = Some []);
          (service2, selected) =
             ROUND_ROBIN (if defaulted then service\<lparr>loadBalanceStrategy := Some ''ROUND_ROBIN''\<rparr>
                          else service);
          effect = persistDefault defaulted defaultWrite
      in case selected of
           Inl e \<Rightarrow> (registry(name \<mapsto> service2), polluted, effect, Uncaught e)
         | Inr i \<Rightarrow>
             if i < 0 \<or> int (length (instances service2)) \<le> i
             then (registry(name \<mapsto> service2), polluted, effect, Uncaught TypeError)
             else (registry(name \<mapsto> service2), polluted, effect,
                   relay (axios (method' req)
                            (tmpl (url (instances service2 ! nat i)) @ path req)
                            (headers req) (body req) (query req))))"
proof -
  let ?d = "seenStrategy polluted service = None \<or> seenStrategy polluted service = Some []"
  let ?s1 = "if ?d then service\<lparr>loadBalanceStrategy := Some ''ROUND_ROBIN''\<rparr> else service"
  have "seenStrategy polluted ?s1 = Some ''ROUND_ROBIN''"
    using assms(2) by (auto simp: seenStrategy_def split: option.splits if_splits)
  then have "select (seenStrategy polluted ?s1) ?s1 = ROUND_ROBIN ?s1" by (simp add: select_def)
  then show ?thesis using assms(1) by (simp add: forward_def Let_def)
qed






text \<open>A service without an enabled instance: the selection throws, the handler does
  not catch it, and no response is sent by the handler.\<close>

lemma forward_none_enabled:
  assumes known: "registry name = Some service"
    and strategy: "loadBalanceStrategy service \<in> {None, Some [], Some ''ROUND_ROBIN''}"
    and none: "\<not> list_ex (\<lambda>inst. truthy (enabled inst)) (instances service)"
  shows "snd (snd (snd (forward registry polluted name req axios defaultWrite))) =
           Uncaught (Error ''No enabled instances available'')"
proof -
  let ?d = "seenStrategy polluted service = None \<or> seenStrategy polluted service = Some []"
  let ?s1 = "if ?d then service\<lparr>loadBalanceStrategy := Some ''ROUND_ROBIN''\<rparr> else service"
  have "\<not> list_ex (\<lambda>inst. truthy (enabled inst)) (instances ?s1)" using none by simp
  from ROUND_ROBIN_none_enabled [OF this] show ?thesis
    by (simp add: forward_known [of registry name service, OF known strategy] Let_def
             del: if_split cong: if_cong)
qed

text \<open>
  Claim C3. With every instance disabled the selection fails at once with
  \<^verbatim>\<open>Error('No enabled instances available')\<close>, without recursion. The claim also has
  the client receive a structured error payload; the forwarding handler calls the
  strategy outside its \<^verbatim>\<open>try\<close>, so the exception leaves the handler and the handler
  sends nothing.
\<close>

theorem forward_without_backend_sends_no_response:
  "\<not> list_ex (\<lambda>inst. truthy (enabled inst)) (instances (the (regOff ''foo''))) \<and>
   forward regOff polluted ''foo'' reqItems axiosOk defaultWrite =
     ([''foo'' \<mapsto> svc [instA\<lparr>enabled := Some False\<rparr>, instB\<lparr>enabled := None\<rparr>] 1], polluted,
      NotStarted, Uncaught (Error ''No enabled instances available''))"
  by (simp add: forward_def regOff_def svc_def instA_def instB_def select_def
      seenStrategy_def persistDefault_def ROUND_ROBIN.simps newIndex_def truthy_def Let_def)

text \<open>Names that are no service: one that nothing is found under is answered with 400; one
  that every object inherits makes the handler throw, after the default strategy was set
  on the inherited object and a write started.\<close>

lemma forward_unknown_names:
  "forward regAB {} ''bar'' reqItems axiosOk defaultWrite =
     (regAB, {}, NotStarted, Responded 400 (message ''Service name does not exist'')) \<and>
   forward regAB {} ''constructor'' reqItems axiosOk (Some ''EACCES'') =
     (regAB, {''constructor''}, CallbackThrew ReferenceError, Uncaught TypeError) \<and>
   forward regAB {''constructor''} ''constructor'' reqItems axiosOk defaultWrite =
     (regAB, {''constructor''}, NotStarted, Uncaught TypeError)"
  by (simp add: forward_def regAB_def objectPrototypeNames_def persistDefault_def)

end
